theory Spec2Isabelle
  imports Main
begin

section \<open>Redis caching and rate limiting: the handlers of \<open>Redis&Caching.js\<close>\<close>

text \<open>
  The file \<open>src/Redis&Caching.js\<close> holds three cache-aside request handlers and a
  rate-limiting middleware, all written against Redis clients. The identifiers are
  resolved as the file declares them: \<open>redis\<close> is the ioredis client of line 37
  (\<open>new Redis()\<close>, the server on localhost:6379), \<open>redisr\<close> the ioredis client of
  line 141 (\<open>new Redis(process.env.REDIS_PORT || 6379)\<close>) and \<open>redis2\<close> the Upstash
  client of line 229.
\<close>

subsection \<open>Values\<close>

text \<open>
  The error taxonomy. \<open>StoreUnavailable\<close> is a rejected client call (no connection),
  \<open>ReplyError\<close> an error reply of the Redis server to a command, \<open>DecodeFailed\<close> the
  SyntaxError of \<open>JSON.parse\<close>, \<open>ComputeFailed\<close> a rejected database query.
\<close>

datatype error = StoreUnavailable | ReplyError string | DecodeFailed | ComputeFailed string

text \<open>
  JavaScript values as far as the handlers build, store and send them. Numbers are the
  integers. A string is given by its characters (\<open>JString\<close>), or, where the code does
  not fix the characters, by what it is the text of: \<open>JTextOf v\<close> is the string
  \<open>JSON.stringify(v)\<close> and \<open>JMessageOf e\<close> the string \<open>e.message\<close>.
\<close>

datatype json =
    JNull
  | JBool bool
  | JInt int
  | JString string
  | JTextOf json
  | JMessageOf error
  | JArray "json list"
  | JObject "(string \<times> json) list"

text \<open>
  A string held by a Redis server, seen through \<open>JSON.parse\<close>: \<open>JSONText v\<close> is the
  text \<open>JSON.stringify(v)\<close>, which parses back to \<open>v\<close>; \<open>Malformed s\<close> is a string
  \<open>s\<close> on which \<open>JSON.parse\<close> throws. The serialisation format itself is not
  modelled. The decimal string of an integer \<open>n\<close>, which is what \<open>INCR\<close> reads and
  writes, is \<open>JSONText (JInt n)\<close>.
\<close>

datatype rtext = JSONText json | Malformed string

text \<open>\<open>JSON.stringify(v)\<close> and \<open>JSON.parse(x)\<close>, for \<open>x\<close> a string or \<open>null\<close>.\<close>

definition JSON_stringify :: "json \<Rightarrow> rtext" where
  "JSON_stringify v = JSONText v"

fun JSON_parse :: "rtext option \<Rightarrow> error + json" where
  "JSON_parse None = Inr JNull"
| "JSON_parse (Some (JSONText v)) = Inr v"
| "JSON_parse (Some (Malformed s)) = Inl DecodeFailed"

text \<open>
  Truthiness, as \<open>if (x)\<close> and \<open>!x\<close> test it: of a value fetched from the database,
  and of the result of \<open>redis.get\<close> (a string or \<open>null\<close>; the only falsy string is
  the empty one, which is not a JSON text). The message of an error counts as a
  non-empty string; no handler tests one.
\<close>

fun truthy :: "json \<Rightarrow> bool" where
  "truthy JNull = False"
| "truthy (JBool b) = b"
| "truthy (JInt n) = (n \<noteq> 0)"
| "truthy (JString s) = (s \<noteq> [])"
| "truthy (JTextOf v) = True"
| "truthy (JMessageOf e) = True"
| "truthy (JArray xs) = True"
| "truthy (JObject fs) = True"

fun truthy_text :: "rtext option \<Rightarrow> bool" where
  "truthy_text None = False"
| "truthy_text (Some (JSONText v)) = True"
| "truthy_text (Some (Malformed s)) = (s \<noteq> [])"

text \<open>The result of \<open>redis.get\<close> as a JavaScript value: the string itself, or \<open>null\<close>.\<close>

fun js_string :: "rtext option \<Rightarrow> json" where
  "js_string None = JNull"
| "js_string (Some (JSONText v)) = JTextOf v"
| "js_string (Some (Malformed s)) = JString s"

subsection \<open>The key-value store\<close>

text \<open>
  Modelled from the spec: the Redis servers and their clients (the packages
  \<open>ioredis\<close> and \<open>@upstash/redis\<close>) are not part of the repository; the commands
  below follow section 4.3 of the specification (get, set-with-expiry, atomic increment
  that creates the counter at 0, set-expiry) and the Redis commands \<open>GET\<close>,
  \<open>SET key value EX n\<close>, \<open>INCR\<close>, \<open>EXPIRE\<close> the code issues. The counter is an
  unbounded integer, as in the specification.

  An entry is a string and, if it has a time-to-live, the last instant at which it is
  alive: the store destroys an entry when its age exceeds its time-to-live, so an entry
  written at \<open>t\<close> with a time-to-live of \<open>n\<close> seconds is alive up to and including
  \<open>t + n\<close>. Time is counted in seconds. A store also carries the outcome of its
  next client calls: the head of
  \<open>faults\<close> says whether the next call is rejected with \<open>StoreUnavailable\<close>, and
  an empty list means that no further call fails.
\<close>

record entry =
  val :: rtext
  expires_at :: "nat option"

record store =
  entries :: "string \<rightharpoonup> entry"
  faults :: "bool list"

definition live :: "nat \<Rightarrow> entry \<Rightarrow> bool" where
  "live now e = (case expires_at e of None \<Rightarrow> True | Some t \<Rightarrow> now \<le> t)"

definition lookup :: "nat \<Rightarrow> store \<Rightarrow> string \<Rightarrow> entry option" where
  "lookup now s k =
     (case entries s k of
        None \<Rightarrow> None
      | Some e \<Rightarrow> if live now e then Some e else None)"

definition next_fault :: "store \<Rightarrow> bool \<times> store" where
  "next_fault s =
     (case faults s of
        [] \<Rightarrow> (False, s)
      | f # fs \<Rightarrow> (f, s\<lparr>faults := fs\<rparr>))"

type_synonym 'a command = "nat \<Rightarrow> store \<Rightarrow> (error + 'a) \<times> store"

definition cmd_get :: "string \<Rightarrow> rtext option command" where
  "cmd_get k now s =
     (case next_fault s of
        (True, s') \<Rightarrow> (Inl StoreUnavailable, s')
      | (False, s') \<Rightarrow> (Inr (map_option val (lookup now s' k)), s'))"

definition cmd_set_ex :: "string \<Rightarrow> rtext \<Rightarrow> nat \<Rightarrow> unit command" where
  "cmd_set_ex k v ttl now s =
     (case next_fault s of
        (True, s') \<Rightarrow> (Inl StoreUnavailable, s')
      | (False, s') \<Rightarrow>
          if ttl = 0 then (Inl (ReplyError ''ERR invalid expire time in 'set' command''), s')
          else (Inr (),
                s'\<lparr>entries := (entries s')(k \<mapsto> \<lparr>val = v, expires_at = Some (now + ttl)\<rparr>)\<rparr>))"

text \<open>The integer a stored string is the decimal representation of, if it is one.\<close>

fun integer_of :: "rtext \<Rightarrow> int option" where
  "integer_of (JSONText (JInt n)) = Some n"
| "integer_of t = None"

definition cmd_incr :: "string \<Rightarrow> int command" where
  "cmd_incr k now s =
     (case next_fault s of
        (True, s') \<Rightarrow> (Inl StoreUnavailable, s')
      | (False, s') \<Rightarrow>
          (case lookup now s' k of
             None \<Rightarrow>
               (Inr 1,
                s'\<lparr>entries := (entries s')(k \<mapsto> \<lparr>val = JSONText (JInt 1), expires_at = None\<rparr>)\<rparr>)
           | Some e \<Rightarrow>
               (case integer_of (val e) of
                  Some n \<Rightarrow>
                    (Inr (n + 1),
                     s'\<lparr>entries := (entries s')(k \<mapsto> e\<lparr>val := JSONText (JInt (n + 1))\<rparr>)\<rparr>)
                | None \<Rightarrow> (Inl (ReplyError ''ERR value is not an integer or out of range''), s'))))"

definition cmd_expire :: "string \<Rightarrow> nat \<Rightarrow> int command" where
  "cmd_expire k ttl now s =
     (case next_fault s of
        (True, s') \<Rightarrow> (Inl StoreUnavailable, s')
      | (False, s') \<Rightarrow>
          (case lookup now s' k of
             None \<Rightarrow> (Inr 0, s')
           | Some e \<Rightarrow>
               if ttl = 0 then (Inr 1, s'\<lparr>entries := (entries s')(k := None)\<rparr>)
               else (Inr 1,
                     s'\<lparr>entries := (entries s')(k \<mapsto> e\<lparr>expires_at := Some (now + ttl)\<rparr>)\<rparr>)))"

subsection \<open>The world of the handlers\<close>

text \<open>
  The servers the three clients talk to, the clock, the database behind
  \<open>Product.findById\<close> (for each id the document found, \<open>JNull\<close> when there is none, or
  a failure) and the record of the slow fetches made so far. \<open>redis_port\<close> is the
  value of \<open>process.env.REDIS_PORT || 6379\<close>. The clock is set by whoever runs a
  handler and stands still while the handler runs.
\<close>

datatype server = Local nat | Upstash

datatype fetch = FindById string | FakeNews

record world =
  clock :: nat
  stores :: "server \<Rightarrow> store"
  redis_port :: nat
  db :: "string \<Rightarrow> error + json"
  fetches :: "fetch list"

text \<open>
  An asynchronous computation either throws (its promise rejects) or returns, and
  changes the world; \<open>bind\<close> is \<open>await\<close> followed by the rest of the function,
  \<open>try_catch\<close> a \<open>try { ... } catch (err) { ... }\<close> block.
\<close>

type_synonym 'a io = "world \<Rightarrow> (error + 'a) \<times> world"

definition return :: "'a \<Rightarrow> 'a io" where
  "return x w = (Inr x, w)"

definition bind :: "'a io \<Rightarrow> ('a \<Rightarrow> 'b io) \<Rightarrow> 'b io" where
  "bind m f w = (case m w of (Inl e, w') \<Rightarrow> (Inl e, w') | (Inr x, w') \<Rightarrow> f x w')"

definition try_catch :: "'a io \<Rightarrow> (error \<Rightarrow> 'a io) \<Rightarrow> 'a io" where
  "try_catch m h w = (case m w of (Inl e, w') \<Rightarrow> h e w' | (Inr x, w') \<Rightarrow> (Inr x, w'))"

definition lift :: "error + 'a \<Rightarrow> 'a io" where
  "lift r w = (r, w)"

text \<open>A client call runs a command on the client's server at the current time.\<close>

definition call :: "(world \<Rightarrow> server) \<Rightarrow> 'a command \<Rightarrow> 'a io" where
  "call client cmd w =
     (case cmd (clock w) (stores w (client w)) of
        (r, s') \<Rightarrow> (r, w\<lparr>stores := (stores w)(client w := s')\<rparr>))"

definition redis :: "world \<Rightarrow> server" where
  "redis w = Local 6379"

definition redisr :: "world \<Rightarrow> server" where
  "redisr w = Local (redis_port w)"

definition redis2 :: "world \<Rightarrow> server" where
  "redis2 w = Upstash"

text \<open>\<open>Product.findById(id)\<close> and \<open>getFakeNewsFromDb()\<close>, each recorded as a fetch.\<close>

definition findById :: "string \<Rightarrow> json io" where
  "findById ident w = (db w ident, w\<lparr>fetches := fetches w @ [FindById ident]\<rparr>)"

definition fake_news :: json where
  "fake_news =
     JArray
      [JObject [(''id'', JInt 1), (''title'', JString ''News 1''), (''content'', JString ''Lorem ipsum'')],
       JObject [(''id'', JInt 2), (''title'', JString ''News 2''), (''content'', JString ''Dolor sit amet'')]]"

definition getFakeNewsFromDb :: "json io" where
  "getFakeNewsFromDb w = (Inr fake_news, w\<lparr>fetches := fetches w @ [FakeNews]\<rparr>)"

subsection \<open>The handlers\<close>

text \<open>
  What a handler does with the request: it sends a response (status and JSON body;
  \<open>res.json\<close> alone sends status 200) or, for a middleware, passes on with \<open>next()\<close>.
\<close>

datatype reply = Responded nat json | Next

text \<open>\<open>app.get("/products/:id", ...)\<close>, lines 64 to 77: no try/catch.\<close>

definition get_products_id :: "string \<Rightarrow> reply io" where
  "get_products_id ident =
     (let cacheKey = ''product:'' @ ident in
      bind (call redis (cmd_get cacheKey)) (\<lambda>cached.
        if truthy_text cached then
          bind (lift (JSON_parse cached)) (\<lambda>v. return (Responded 200 v))
        else
          bind (findById ident) (\<lambda>product.
          bind (call redis (cmd_set_ex cacheKey (JSON_stringify product) 3600)) (\<lambda>_.
          return (Responded 200 product)))))"

text \<open>\<open>router.get("/:id", ...)\<close>, lines 157 to 179: reads through \<open>redis\<close>, writes through \<open>redisr\<close>.\<close>

definition router_get_id :: "string \<Rightarrow> reply io" where
  "router_get_id ident =
     (let cacheKey = ''product:'' @ ident in
      try_catch
        (bind (call redis (cmd_get cacheKey)) (\<lambda>cached.
           if truthy_text cached then
             bind (lift (JSON_parse cached)) (\<lambda>v.
             return (Responded 200 (JObject [(''source'', JString ''cache''), (''data'', v)])))
           else
             bind (findById ident) (\<lambda>product.
             if \<not> truthy product then
               return (Responded 404 (JObject [(''message'', JString ''Not found'')]))
             else
               bind (call redisr (cmd_set_ex cacheKey (JSON_stringify product) 3600)) (\<lambda>_.
               return (Responded 200 (JObject [(''source'', JString ''db''), (''data'', product)]))))))
        (\<lambda>err. return (Responded 500 (JObject [(''error'', JMessageOf err)]))))"

text \<open>\<open>app.get("/news", ...)\<close>, lines 243 to 270: reads through \<open>redis\<close>, writes through \<open>redis2\<close>.\<close>

definition get_news :: "reply io" where
  "get_news =
     try_catch
       (let cacheKey = ''news:all'' in
        bind (call redis (cmd_get cacheKey)) (\<lambda>cachedNews.
          if truthy_text cachedNews then
            return (Responded 200
              (JObject [(''success'', JBool True), (''source'', JString ''cache''),
                        (''data'', js_string cachedNews)]))
          else
            bind getFakeNewsFromDb (\<lambda>news.
            bind (call redis2 (cmd_set_ex cacheKey (JSON_stringify news) 600)) (\<lambda>_.
            return (Responded 200
              (JObject [(''success'', JBool True), (''source'', JString ''db''),
                        (''data'', news)]))))))
       (\<lambda>error. return (Responded 500
          (JObject [(''success'', JBool False), (''message'', JString ''Server error'')])))"

text \<open>\<open>rateLimiter\<close>, lines 112 to 123, on the address \<open>req.ip\<close>.\<close>

definition rateLimiter :: "string \<Rightarrow> reply io" where
  "rateLimiter ip =
     (let key = ''rate:'' @ ip in
      bind (call redis (cmd_incr key)) (\<lambda>count.
      bind (if count = 1 then call redis (cmd_expire key 60) else return 0) (\<lambda>_.
      if count > 10 then
        return (Responded 429 (JObject [(''error'', JString ''Too many requests'')]))
      else return Next)))"

text \<open>
  The two writes made outside any handler, lines 43 to 48 and line 93:
  \<open>redis.set("user:123", JSON.stringify({...}), "EX", 3600)\<close> and
  \<open>redis.set("key", "value", "EX", 60)\<close>.
\<close>

definition set_user_123 :: "unit io" where
  "set_user_123 =
     call redis (cmd_set_ex ''user:123''
       (JSON_stringify (JObject [(''name'', JString ''Mubarak''), (''role'', JString ''admin'')]))
       3600)"

definition set_key :: "unit io" where
  "set_key = call redis (cmd_set_ex ''key'' (Malformed ''value'') 60)"

subsection \<open>Requests over time, and what is observed of a world\<close>

text \<open>
  The server runs a handler once per request. \<open>serve h ts w\<close> runs \<open>h\<close> for the
  requests arriving at the instants \<open>ts\<close>, in this order, and collects what each
  request got.
\<close>

fun serve :: "reply io \<Rightarrow> nat list \<Rightarrow> world \<Rightarrow> (error + reply) list \<times> world" where
  "serve h [] w = ([], w)"
| "serve h (t # ts) w =
     (case h (w\<lparr>clock := t\<rparr>) of
        (r, w') \<Rightarrow> (case serve h ts w' of (rs, w'') \<Rightarrow> (r # rs, w'')))"

text \<open>A world to start from: empty reachable stores, an empty database, time 0.\<close>

definition empty_store :: store where
  "empty_store = \<lparr>entries = Map.empty, faults = []\<rparr>"

definition world0 :: world where
  "world0 = \<lparr>clock = 0, stores = (\<lambda>_. empty_store), redis_port = 6379,
             db = (\<lambda>_. Inr JNull), fetches = []\<rparr>"

text \<open>
  A product, and the world at time 0 whose database holds it under the id 42 and
  nothing else, and whose server on port 6379 has the entries \<open>es\<close> and the call
  outcomes \<open>fs\<close>.
\<close>

definition tea :: json where
  "tea = JObject [(''_id'', JString ''42''), (''name'', JString ''tea'')]"

definition shop :: "bool list \<Rightarrow> (string \<rightharpoonup> entry) \<Rightarrow> world" where
  "shop fs es = world0\<lparr>db := (\<lambda>i. if i = ''42'' then Inr tea else Inr JNull),
                       stores := (stores world0)(Local 6379 := \<lparr>entries = es, faults = fs\<rparr>)\<rparr>"

text \<open>The world at time 0 in which the counter of an address holds \<open>n\<close> and expires at \<open>t\<close>.\<close>

definition world_with_counter :: "string \<Rightarrow> int \<Rightarrow> nat \<Rightarrow> world" where
  "world_with_counter ip n t =
     world0\<lparr>stores := (stores world0)(Local 6379 :=
       empty_store\<lparr>entries := [''rate:'' @ ip \<mapsto> \<lparr>val = JSONText (JInt n), expires_at = Some t\<rparr>]\<rparr>)\<rparr>"

text \<open>
  The rate counter of an address on the server of \<open>redis\<close>: as stored
  (\<open>rate_entry\<close>) and as the server sees it now (\<open>counter\<close>, nothing once expired).
\<close>

definition rate_entry :: "world \<Rightarrow> string \<Rightarrow> entry option" where
  "rate_entry w ip = entries (stores w (Local 6379)) (''rate:'' @ ip)"

definition counter :: "world \<Rightarrow> string \<Rightarrow> entry option" where
  "counter w ip = lookup (clock w) (stores w (Local 6379)) (''rate:'' @ ip)"

text \<open>The entries of every server, without the outcomes of the calls to come.\<close>

definition all_entries :: "world \<Rightarrow> server \<Rightarrow> string \<rightharpoonup> entry" where
  "all_entries w sv = entries (stores w sv)"

text \<open>What \<open>redis.get(k)\<close> would give in a world.\<close>

definition cached_at :: "world \<Rightarrow> string \<Rightarrow> error + rtext option" where
  "cached_at w k = fst (call redis (cmd_get k) w)"

text \<open>
  The rejection of the limiter, the decision on a post-increment count, and the
  outcome that admitting exactly the first ten calls of a window gives call number
  \<open>k\<close> of the window, counted from 0.
\<close>

definition too_many_requests :: reply where
  "too_many_requests = Responded 429 (JObject [(''error'', JString ''Too many requests'')])"

definition verdict :: "int \<Rightarrow> reply" where
  "verdict c = (if c > 10 then too_many_requests else Next)"

definition window_outcome :: "nat \<Rightarrow> error + reply" where
  "window_outcome k = (if k < 10 then Inr Next else Inr too_many_requests)"

text \<open>A field of the JSON object a response carries, if it has one.\<close>

fun body_field :: "string \<Rightarrow> reply \<Rightarrow> json option" where
  "body_field f (Responded st (JObject fs)) = map_of fs f"
| "body_field f r = None"

section \<open>The rate limiter\<close>

lemmas rl_defs = rateLimiter_def Let_def counter_def rate_entry_def bind_def call_def redis_def
  cmd_incr_def cmd_expire_def next_fault_def lookup_def live_def return_def

lemmas world_defs = world0_def empty_store_def world_with_counter_def

lemma rl_fresh:
  assumes "faults (stores w (Local 6379)) = []" "counter w ip = None"
  shows "fst (rateLimiter ip w) = Inr Next"
    and "faults (stores (snd (rateLimiter ip w)) (Local 6379)) = []"
    and "rate_entry (snd (rateLimiter ip w)) ip
          = Some \<lparr>val = JSONText (JInt 1), expires_at = Some (clock w + 60)\<rparr>"
  using assms
  by (simp_all add: rl_defs split: option.splits)

lemma rl_existing:
  assumes "faults (stores w (Local 6379)) = []" "counter w ip = Some e"
    "val e = JSONText (JInt n)" "n \<noteq> 0"
  shows "fst (rateLimiter ip w) = Inr (verdict (n + 1))"
    and "faults (stores (snd (rateLimiter ip w)) (Local 6379)) = []"
    and "rate_entry (snd (rateLimiter ip w)) ip = Some (e\<lparr>val := JSONText (JInt (n + 1))\<rparr>)"
  using assms
  by (simp_all add: rl_defs verdict_def too_many_requests_def split: option.splits if_splits)

lemma rl_never_admits:
  assumes "counter w ip = Some e" "val e = JSONText (JInt n)" "10 \<le> n"
  shows "fst (rateLimiter ip w) \<noteq> Inr Next"
    and "rate_entry (snd (rateLimiter ip w)) ip = Some e \<or>
         rate_entry (snd (rateLimiter ip w)) ip = Some (e\<lparr>val := JSONText (JInt (n + 1))\<rparr>)"
  using assms
  by (auto simp add: rl_defs split: option.splits if_splits list.splits bool.splits)

lemma counter_clock:
  "rate_entry w ip = Some e \<Longrightarrow> live t e \<Longrightarrow> counter (w\<lparr>clock := t\<rparr>) ip = Some e"
  by (simp add: counter_def rate_entry_def lookup_def)

lemma serve_append:
  "serve h (xs @ ys) w =
     (case serve h xs w of (rs, w') \<Rightarrow> (case serve h ys w' of (rs', w'') \<Rightarrow> (rs @ rs', w'')))"
  by (induction xs arbitrary: w) (auto split: prod.splits)

text \<open>
  Calls while the counter is alive and the store reachable: from a count \<open>n\<close>, call
  number \<open>i\<close> sees the count \<open>n + 1 + i\<close>, and the expiry stays as it is.
\<close>

lemma serve_window:
  assumes "faults (stores w (Local 6379)) = []" "rate_entry w ip = Some e"
    "val e = JSONText (JInt n)" "1 \<le> n" "\<forall>t\<in>set ts. live t e"
  shows "fst (serve (rateLimiter ip) ts w) = map (\<lambda>i. Inr (verdict (n + 1 + int i))) [0..<length ts]
       \<and> faults (stores (snd (serve (rateLimiter ip) ts w)) (Local 6379)) = []
       \<and> rate_entry (snd (serve (rateLimiter ip) ts w)) ip
            = Some (e\<lparr>val := JSONText (JInt (n + int (length ts)))\<rparr>)"
  using assms
proof (induction ts arbitrary: w e n)
  case Nil
  then show ?case by simp
next
  case (Cons t ts)
  let ?w = "w\<lparr>clock := t\<rparr>"
  obtain r w' where step: "rateLimiter ip ?w = (r, w')" by (cases "rateLimiter ip ?w")
  have f: "faults (stores ?w (Local 6379)) = []" using Cons.prems(1) by simp
  have c: "counter ?w ip = Some e" using Cons.prems(2,5) by (simp add: counter_clock)
  have n0: "n \<noteq> 0" using Cons.prems(4) by simp
  note ex = rl_existing [OF f c Cons.prems(3) n0]
  have r: "r = Inr (verdict (n + 1))" using ex(1) step by simp
  have f': "faults (stores w' (Local 6379)) = []" using ex(2) step by simp
  have e': "rate_entry w' ip = Some (e\<lparr>val := JSONText (JInt (n + 1))\<rparr>)" using ex(3) step by simp
  have l': "\<forall>t\<in>set ts. live t (e\<lparr>val := JSONText (JInt (n + 1))\<rparr>)"
    using Cons.prems(5) by (simp add: live_def)
  have ih: "fst (serve (rateLimiter ip) ts w') = map (\<lambda>i. Inr (verdict (n + 1 + 1 + int i))) [0..<length ts]
       \<and> faults (stores (snd (serve (rateLimiter ip) ts w')) (Local 6379)) = []
       \<and> rate_entry (snd (serve (rateLimiter ip) ts w')) ip
            = Some (e\<lparr>val := JSONText (JInt (n + 1)), val := JSONText (JInt (n + 1 + int (length ts)))\<rparr>)"
    using Cons.IH [OF f' e' _ _ l', of "n + 1"] Cons.prems(4) by simp
  have m: "map (\<lambda>i. Inr (verdict (n + 1 + int i)) :: error + reply) [0..<length (t # ts)]
        = Inr (verdict (n + 1)) # map (\<lambda>i. Inr (verdict (n + 1 + 1 + int i))) [0..<length ts]"
    by (simp add: map_upt_Suc algebra_simps del: upt_Suc)
  have s: "serve (rateLimiter ip) (t # ts) w
        = (r # fst (serve (rateLimiter ip) ts w'), snd (serve (rateLimiter ip) ts w'))"
    using step by (simp split: prod.splits)
  have a: "n + 1 + int (length ts) = n + int (length (t # ts))" by simp
  show ?case
    unfolding s fst_conv snd_conv m a [symmetric] using r ih by simp
qed

lemma verdict_window_outcome: "Inr (verdict (2 + int i)) = window_outcome (Suc i)"
  by (simp add: verdict_def window_outcome_def)

text \<open>A window opened by a call at \<open>t0\<close>, and the calls that follow within it.\<close>

lemma serve_fresh_window:
  assumes "faults (stores w (Local 6379)) = []"
    and "lookup t0 (stores w (Local 6379)) (''rate:'' @ ip) = None"
    and "\<forall>t\<in>set ts. t \<le> t0 + 60"
  shows "fst (serve (rateLimiter ip) (t0 # ts) w) = map window_outcome [0..<Suc (length ts)]"
    and "faults (stores (snd (serve (rateLimiter ip) (t0 # ts) w)) (Local 6379)) = []"
    and "rate_entry (snd (serve (rateLimiter ip) (t0 # ts) w)) ip
          = Some \<lparr>val = JSONText (JInt (1 + int (length ts))), expires_at = Some (t0 + 60)\<rparr>"
proof -
  let ?w = "w\<lparr>clock := t0\<rparr>"
  let ?e = "\<lparr>val = JSONText (JInt 1), expires_at = Some (t0 + 60)\<rparr>"
  obtain r w' where step: "rateLimiter ip ?w = (r, w')" by (cases "rateLimiter ip ?w")
  have f: "faults (stores ?w (Local 6379)) = []" using assms(1) by simp
  have c: "counter ?w ip = None" using assms(2) by (simp add: counter_def)
  note fr = rl_fresh [OF f c]
  have r: "r = window_outcome 0" using fr(1) step by (simp add: window_outcome_def)
  have f': "faults (stores w' (Local 6379)) = []" using fr(2) step by simp
  have e': "rate_entry w' ip = Some ?e" using fr(3) step by simp
  have l: "\<forall>t\<in>set ts. live t ?e" using assms(3) by (simp add: live_def)
  note sw = serve_window [OF f' e' _ _ l, of 1, simplified]
  have s: "serve (rateLimiter ip) (t0 # ts) w
        = (r # fst (serve (rateLimiter ip) ts w'), snd (serve (rateLimiter ip) ts w'))"
    using step by (simp split: prod.splits)
  have m: "map window_outcome [0..<Suc (length ts)]
        = window_outcome 0 # map (\<lambda>i. Inr (verdict (2 + int i))) [0..<length ts]"
    by (simp add: map_upt_Suc verdict_window_outcome del: upt_Suc)
  show "fst (serve (rateLimiter ip) (t0 # ts) w) = map window_outcome [0..<Suc (length ts)]"
    unfolding s fst_conv m using r sw by simp
  show "faults (stores (snd (serve (rateLimiter ip) (t0 # ts) w)) (Local 6379)) = []"
    unfolding s snd_conv using sw by simp
  show "rate_entry (snd (serve (rateLimiter ip) (t0 # ts) w)) ip
          = Some \<lparr>val = JSONText (JInt (1 + int (length ts))), expires_at = Some (t0 + 60)\<rparr>"
    unfolding s snd_conv using sw by simp
qed

text \<open>
  Claim C1. With the server of \<open>redis\<close> reachable and no live counter for the address
  at \<open>t0\<close>, the calls at \<open>t0\<close> and at any later instants \<open>ts\<close> up to
  \<open>t0 + 60\<close>, while the counter set up at \<open>t0\<close> is alive, get, in order:
  \<open>next()\<close> for the first ten, the 429 rejection for the eleventh and every later one.
  A call at \<open>t1\<close>, later than \<open>t0 + 60\<close>, and the calls \<open>ts'\<close> that follow it up to
  \<open>t1 + 60\<close> are counted from zero again. The window length 60 and the limit 10 are
  the constants of the code.
\<close>

theorem rateLimiter_fixed_window:
  assumes "faults (stores w (Local 6379)) = []"
    and "lookup t0 (stores w (Local 6379)) (''rate:'' @ ip) = None"
    and "\<forall>t\<in>set ts. t0 \<le> t \<and> t \<le> t0 + 60"
    and "t0 + 60 < t1"
    and "\<forall>t\<in>set ts'. t1 \<le> t \<and> t \<le> t1 + 60"
  shows "fst (serve (rateLimiter ip) ((t0 # ts) @ (t1 # ts')) w)
           = map window_outcome [0..<Suc (length ts)] @ map window_outcome [0..<Suc (length ts')]"
proof -
  let ?h = "rateLimiter ip"
  let ?w1 = "snd (serve ?h (t0 # ts) w)"
  have ts: "\<forall>t\<in>set ts. t \<le> t0 + 60" using assms(3) by simp
  have ts': "\<forall>t\<in>set ts'. t \<le> t1 + 60" using assms(5) by simp
  note first = serve_fresh_window [OF assms(1,2) ts]
  have dead: "lookup t1 (stores ?w1 (Local 6379)) (''rate:'' @ ip) = None"
    using first(3) assms(4) by (simp add: rate_entry_def lookup_def live_def)
  note second = serve_fresh_window [OF first(2) dead ts']
  have "fst (serve ?h ((t0 # ts) @ (t1 # ts')) w)
          = fst (serve ?h (t0 # ts) w) @ fst (serve ?h (t1 # ts') ?w1)"
    by (simp only: serve_append split: prod.splits) simp
  then show ?thesis using first(1) second(1) by simp
qed

theorem rateLimiter_fixed_window_witness:
  "faults (stores world0 (Local 6379)) = []
   \<and> lookup 0 (stores world0 (Local 6379)) (''rate:'' @ ''1.2.3.4'') = None
   \<and> list_all (\<lambda>t. 0 \<le> t \<and> t \<le> 0 + 60) [1, 2, 3, 4, 5, 6, 7, 8, 9, 10, 60 :: nat]
   \<and> (0::nat) + 60 < 61
   \<and> list_all (\<lambda>t. 61 \<le> t \<and> t \<le> 61 + 60) [121 :: nat]
   \<and> fst (serve (rateLimiter ''1.2.3.4'')
         ((0 # [1, 2, 3, 4, 5, 6, 7, 8, 9, 10, 60]) @ (61 # [121])) world0)
       = [Inr Next, Inr Next, Inr Next, Inr Next, Inr Next, Inr Next, Inr Next, Inr Next,
          Inr Next, Inr Next, Inr too_many_requests, Inr too_many_requests, Inr Next, Inr Next]"
proof -
  have h1: "faults (stores world0 (Local 6379)) = []"
    by (simp add: world0_def empty_store_def)
  have h2: "lookup 0 (stores world0 (Local 6379)) (''rate:'' @ ''1.2.3.4'') = None"
    by (simp add: world0_def empty_store_def lookup_def)
  have h3: "\<forall>t\<in>set [1, 2, 3, 4, 5, 6, 7, 8, 9, 10, 60 :: nat]. 0 \<le> t \<and> t \<le> 0 + 60" by simp
  have h4: "(0::nat) + 60 < 61" by simp
  have h5: "\<forall>t\<in>set [121 :: nat]. 61 \<le> t \<and> t \<le> 61 + 60" by simp
  have m: "map window_outcome [0..<Suc (length [1, 2, 3, 4, 5, 6, 7, 8, 9, 10, 60 :: nat])]
             @ map window_outcome [0..<Suc (length [121 :: nat])]
        = [Inr Next, Inr Next, Inr Next, Inr Next, Inr Next, Inr Next, Inr Next, Inr Next,
          Inr Next, Inr Next, Inr too_many_requests, Inr too_many_requests, Inr Next, Inr Next]"
    by (simp add: window_outcome_def upt_rec)
  show ?thesis
    using h1 h2 rateLimiter_fixed_window [OF h1 h2 h3 h4 h5] unfolding m by simp
qed

subsection \<open>One call: what it stores and when it rejects\<close>

lemma rateLimiter_unfold:
  "rateLimiter ip w =
     (case call redis (cmd_incr (''rate:'' @ ip)) w of
        (Inl err, w1) \<Rightarrow> (Inl err, w1)
      | (Inr c, w1) \<Rightarrow>
          if c = 1 then
            (case call redis (cmd_expire (''rate:'' @ ip) 60) w1 of
               (Inl err, w2) \<Rightarrow> (Inl err, w2)
             | (Inr x, w2) \<Rightarrow> (Inr (verdict c), w2))
          else (Inr (verdict c), w1))"
  by (simp add: rateLimiter_def Let_def bind_def return_def verdict_def too_many_requests_def
      split: prod.splits sum.splits)

lemma cmd_incr_Inr:
  assumes "cmd_incr k now s = (Inr c, s1)"
  shows "\<exists>e1. entries s1 k = Some e1 \<and> val e1 = JSONText (JInt c) \<and> live now e1
           \<and> (c \<noteq> 1 \<longrightarrow> (\<exists>e. lookup now s k = Some e \<and> expires_at e1 = expires_at e))"
  using assms
  by (auto simp add: cmd_incr_def next_fault_def lookup_def live_def
      split: option.splits if_splits list.splits bool.splits)

lemma cmd_expire_live:
  assumes "entries s k = Some e" "live now e"
  shows "(\<exists>s1. cmd_expire k 60 now s = (Inl StoreUnavailable, s1) \<and> entries s1 = entries s)
       \<or> (\<exists>s1. cmd_expire k 60 now s = (Inr 1, s1)
              \<and> entries s1 k = Some (e\<lparr>expires_at := Some (now + 60)\<rparr>))"
  using assms
  by (auto simp add: cmd_expire_def next_fault_def lookup_def
      split: option.splits if_splits list.splits bool.splits)

lemma rl_after_incr:
  assumes "fst (call redis (cmd_incr (''rate:'' @ ip)) w) = Inr c"
  shows "\<exists>e1. val e1 = JSONText (JInt c) \<and> live (clock w) e1
     \<and> (c \<noteq> 1 \<longrightarrow> fst (rateLimiter ip w) = Inr (verdict c)
            \<and> rate_entry (snd (rateLimiter ip w)) ip = Some e1
            \<and> (\<exists>e. counter w ip = Some e \<and> expires_at e1 = expires_at e))
     \<and> (c = 1 \<longrightarrow> (fst (rateLimiter ip w) = Inl StoreUnavailable
                    \<and> rate_entry (snd (rateLimiter ip w)) ip = Some e1)
                \<or> (fst (rateLimiter ip w) = Inr Next
                    \<and> rate_entry (snd (rateLimiter ip w)) ip
                        = Some (e1\<lparr>expires_at := Some (clock w + 60)\<rparr>)))"
proof -
  let ?k = "''rate:'' @ ip"
  let ?s = "stores w (Local 6379)"
  obtain r s1 where i: "cmd_incr ?k (clock w) ?s = (r, s1)" by (cases "cmd_incr ?k (clock w) ?s")
  let ?w1 = "w\<lparr>stores := (stores w)(Local 6379 := s1)\<rparr>"
  have ci: "call redis (cmd_incr ?k) w = (r, ?w1)" using i by (simp add: call_def redis_def)
  then have r: "r = Inr c" using assms by simp
  from cmd_incr_Inr [OF i [unfolded r]] obtain e1 where
    e1: "entries s1 ?k = Some e1" "val e1 = JSONText (JInt c)" "live (clock w) e1"
    "c \<noteq> 1 \<longrightarrow> (\<exists>e. lookup (clock w) ?s ?k = Some e \<and> expires_at e1 = expires_at e)"
    by blast
  have other: "c \<noteq> 1 \<longrightarrow> fst (rateLimiter ip w) = Inr (verdict c)
            \<and> rate_entry (snd (rateLimiter ip w)) ip = Some e1
            \<and> (\<exists>e. counter w ip = Some e \<and> expires_at e1 = expires_at e)"
    using ci r e1(1,4) by (simp add: rateLimiter_unfold rate_entry_def counter_def)
  have one: "c = 1 \<longrightarrow> (fst (rateLimiter ip w) = Inl StoreUnavailable
                    \<and> rate_entry (snd (rateLimiter ip w)) ip = Some e1)
                \<or> (fst (rateLimiter ip w) = Inr Next
                    \<and> rate_entry (snd (rateLimiter ip w)) ip
                        = Some (e1\<lparr>expires_at := Some (clock w + 60)\<rparr>))"
  proof
    assume c1: "c = 1"
    from cmd_expire_live [OF e1(1,3)] show "(fst (rateLimiter ip w) = Inl StoreUnavailable
                    \<and> rate_entry (snd (rateLimiter ip w)) ip = Some e1)
                \<or> (fst (rateLimiter ip w) = Inr Next
                    \<and> rate_entry (snd (rateLimiter ip w)) ip
                        = Some (e1\<lparr>expires_at := Some (clock w + 60)\<rparr>))"
    proof (elim disjE exE conjE)
      fix s2 assume x: "cmd_expire ?k 60 (clock w) s1 = (Inl StoreUnavailable, s2)"
        "entries s2 = entries s1"
      have "call redis (cmd_expire ?k 60) ?w1
          = (Inl StoreUnavailable, ?w1\<lparr>stores := (stores ?w1)(Local 6379 := s2)\<rparr>)"
        using x(1) by (simp add: call_def redis_def)
      then show ?thesis using ci r c1 x(2) e1(1)
        by (simp add: rateLimiter_unfold rate_entry_def)
    next
      fix s2 assume x: "cmd_expire ?k 60 (clock w) s1 = (Inr 1, s2)"
        "entries s2 ?k = Some (e1\<lparr>expires_at := Some (clock w + 60)\<rparr>)"
      have "call redis (cmd_expire ?k 60) ?w1
          = (Inr 1, ?w1\<lparr>stores := (stores ?w1)(Local 6379 := s2)\<rparr>)"
        using x(1) by (simp add: call_def redis_def)
      then show ?thesis using ci r c1 x(2)
        by (simp add: rateLimiter_unfold rate_entry_def verdict_def)
    qed
  qed
  show ?thesis using e1(2,3) other one by blast
qed

lemma rl_stores_count:
  assumes "fst (call redis (cmd_incr (''rate:'' @ ip)) w) = Inr c"
  shows "map_option val (rate_entry (snd (rateLimiter ip w)) ip) = Some (JSONText (JInt c))"
  using rl_after_incr [OF assms] by (cases "c = 1") auto

lemma rl_sets_expiry:
  assumes "fst (call redis (cmd_incr (''rate:'' @ ip)) w) = Inr 1"
    "fst (rateLimiter ip w) = Inr r"
  shows "map_option expires_at (rate_entry (snd (rateLimiter ip w)) ip) = Some (Some (clock w + 60))"
  using rl_after_incr [OF assms(1)] assms(2) by auto

lemma rl_keeps_expiry:
  assumes "fst (call redis (cmd_incr (''rate:'' @ ip)) w) = Inr c" "c \<noteq> 1"
  shows "counter w ip \<noteq> None"
    and "map_option expires_at (rate_entry (snd (rateLimiter ip w)) ip)
          = map_option expires_at (counter w ip)"
  using rl_after_incr [OF assms(1)] assms(2) by auto

lemma rl_rejection:
  assumes "rateLimiter ip w = (Inr (Responded st b), w')"
  shows "Responded st b = too_many_requests"
    and "\<exists>e n. rate_entry w' ip = Some e \<and> val e = JSONText (JInt n) \<and> 10 < n \<and> live (clock w) e"
proof -
  obtain r w1 where ci: "call redis (cmd_incr (''rate:'' @ ip)) w = (r, w1)"
    by (cases "call redis (cmd_incr (''rate:'' @ ip)) w")
  from assms ci obtain c where r: "r = Inr c"
    by (cases r) (simp_all add: rateLimiter_unfold)
  have f: "fst (call redis (cmd_incr (''rate:'' @ ip)) w) = Inr c" using ci r by simp
  from rl_after_incr [OF f] obtain e1 where
    e1: "val e1 = JSONText (JInt c)" "live (clock w) e1"
     "c \<noteq> 1 \<longrightarrow> fst (rateLimiter ip w) = Inr (verdict c)
            \<and> rate_entry (snd (rateLimiter ip w)) ip = Some e1"
     "c = 1 \<longrightarrow> (fst (rateLimiter ip w) = Inl StoreUnavailable)
                \<or> (fst (rateLimiter ip w) = Inr Next)"
    by blast
  have c1: "c \<noteq> 1" using e1(4) assms by auto
  then have v: "verdict c = Responded st b" and e: "rate_entry w' ip = Some e1"
    using e1(3) assms by simp_all
  from v show "Responded st b = too_many_requests"
    by (simp add: verdict_def split: if_splits)
  from v have "10 < c" by (simp add: verdict_def split: if_splits)
  then show "\<exists>e n. rate_entry w' ip = Some e \<and> val e = JSONText (JInt n) \<and> 10 < n \<and> live (clock w) e"
    using e e1(1,2) by blast
qed

lemma incr_count:
  assumes "counter w ip = Some e" "val e = JSONText (JInt n)"
    "fst (call redis (cmd_incr (''rate:'' @ ip)) w) = Inr c"
  shows "c = n + 1"
  using assms
  by (auto simp add: counter_def call_def redis_def cmd_incr_def next_fault_def lookup_def
      split: option.splits if_splits list.splits bool.splits)

lemma rl_rejects_from_ten:
  assumes "counter w ip = Some e" "val e = JSONText (JInt n)"
    "fst (call redis (cmd_incr (''rate:'' @ ip)) w) = Inr c" "10 \<le> n"
  shows "fst (rateLimiter ip w) = Inr too_many_requests"
proof -
  have c: "c = n + 1" using incr_count [OF assms(1,2,3)] .
  then have "c \<noteq> 1" "10 < c" using assms(4) by simp_all
  then show ?thesis using rl_after_incr [OF assms(3)] by (auto simp add: verdict_def)
qed

lemma serve_never_admits:
  assumes "rate_entry w ip = Some e" "val e = JSONText (JInt n)" "10 \<le> n" "\<forall>t\<in>set ts. live t e"
  shows "Inr Next \<notin> set (fst (serve (rateLimiter ip) ts w))"
  using assms
proof (induction ts arbitrary: w e n)
  case Nil
  then show ?case by simp
next
  case (Cons t ts)
  let ?w = "w\<lparr>clock := t\<rparr>"
  obtain r w' where step: "rateLimiter ip ?w = (r, w')" by (cases "rateLimiter ip ?w")
  have c: "counter ?w ip = Some e" using Cons.prems(1,4) by (simp add: counter_clock)
  note na = rl_never_admits [OF c Cons.prems(2,3)]
  have r: "r \<noteq> Inr Next" using na(1) step by simp
  have e': "rate_entry w' ip = Some e \<or> rate_entry w' ip = Some (e\<lparr>val := JSONText (JInt (n + 1))\<rparr>)"
    using na(2) step by simp
  have l: "\<forall>t\<in>set ts. live t e" using Cons.prems(4) by simp
  have l': "\<forall>t\<in>set ts. live t (e\<lparr>val := JSONText (JInt (n + 1))\<rparr>)"
    using Cons.prems(4) by (simp add: live_def)
  have rest: "Inr Next \<notin> set (fst (serve (rateLimiter ip) ts w'))"
  proof (rule disjE [OF e'])
    assume "rate_entry w' ip = Some e"
    then show ?thesis using Cons.IH [OF _ Cons.prems(2,3) l] by simp
  next
    assume a: "rate_entry w' ip = Some (e\<lparr>val := JSONText (JInt (n + 1))\<rparr>)"
    have "10 \<le> n + 1" using Cons.prems(3) by simp
    then show ?thesis using Cons.IH [OF a _ _ l', of "n + 1"] by simp
  qed
  have s: "fst (serve (rateLimiter ip) (t # ts) w) = r # fst (serve (rateLimiter ip) ts w')"
    using step by (simp split: prod.splits)
  show ?case unfolding s using r rest by simp
qed

text \<open>
  Claim C10. The limiter increments before it decides. (1) A call whose increment the
  server answers finds the count \<open>n\<close> raised to \<open>n + 1\<close> afterwards, whatever
  the decision, and from a count of ten or more the call is rejected all the same.
  (2) In a window opened on a reachable store the count after \<open>k\<close> calls is \<open>k\<close>,
  for every \<open>k\<close>: it grows by one with each call and is not capped at ten. (3) After
  a rejection, no call made while the counter entry is alive is passed on with
  \<open>next()\<close>, whether the store answers it or not.
\<close>

theorem rateLimiter_counts_every_call:
  "(counter w ip = Some e \<and> val e = JSONText (JInt n)
      \<and> fst (call redis (cmd_incr (''rate:'' @ ip)) w) = Inr c
     \<longrightarrow> c = n + 1
       \<and> map_option val (rate_entry (snd (rateLimiter ip w)) ip) = Some (JSONText (JInt (n + 1)))
       \<and> (10 \<le> n \<longrightarrow> fst (rateLimiter ip w) = Inr too_many_requests))
   \<and> (faults (stores w (Local 6379)) = []
      \<and> lookup t0 (stores w (Local 6379)) (''rate:'' @ ip) = None
      \<and> (\<forall>t\<in>set ts. t0 \<le> t \<and> t < t0 + 60)
     \<longrightarrow> map_option val (rate_entry (snd (serve (rateLimiter ip) (t0 # ts) w)) ip)
           = Some (JSONText (JInt (1 + int (length ts)))))
   \<and> (rateLimiter ip w = (Inr (Responded st b), w')
     \<longrightarrow> (\<exists>e'. rate_entry w' ip = Some e' \<and> live (clock w) e'
            \<and> (\<forall>ts'. (\<forall>t\<in>set ts'. live t e')
                  \<longrightarrow> Inr Next \<notin> set (fst (serve (rateLimiter ip) ts' w')))))"
proof (intro conjI impI)
  assume a: "counter w ip = Some e \<and> val e = JSONText (JInt n)
      \<and> fst (call redis (cmd_incr (''rate:'' @ ip)) w) = Inr c"
  then show c: "c = n + 1" using incr_count by blast
  show "map_option val (rate_entry (snd (rateLimiter ip w)) ip) = Some (JSONText (JInt (n + 1)))"
    using a c rl_stores_count [of ip w c] by simp
  assume "10 \<le> n"
  then show "fst (rateLimiter ip w) = Inr too_many_requests"
    using a rl_rejects_from_ten by blast
next
  assume a: "faults (stores w (Local 6379)) = []
      \<and> lookup t0 (stores w (Local 6379)) (''rate:'' @ ip) = None
      \<and> (\<forall>t\<in>set ts. t0 \<le> t \<and> t < t0 + 60)"
  then have ts: "\<forall>t\<in>set ts. t \<le> t0 + 60" by (simp add: less_imp_le)
  show "map_option val (rate_entry (snd (serve (rateLimiter ip) (t0 # ts) w)) ip)
           = Some (JSONText (JInt (1 + int (length ts))))"
    using serve_fresh_window(3) [of w t0 ip ts] a ts by simp
next
  assume a: "rateLimiter ip w = (Inr (Responded st b), w')"
  from rl_rejection(2) [OF a] obtain e' n' where
    e': "rate_entry w' ip = Some e'" "val e' = JSONText (JInt n')" "10 < n'" "live (clock w) e'"
    by blast
  have "\<forall>ts'. (\<forall>t\<in>set ts'. live t e')
                  \<longrightarrow> Inr Next \<notin> set (fst (serve (rateLimiter ip) ts' w'))"
    using serve_never_admits [OF e'(1,2)] e'(3) by simp
  then show "\<exists>e'. rate_entry w' ip = Some e' \<and> live (clock w) e'
            \<and> (\<forall>ts'. (\<forall>t\<in>set ts'. live t e')
                  \<longrightarrow> Inr Next \<notin> set (fst (serve (rateLimiter ip) ts' w')))"
    using e'(1,4) by blast
qed

theorem rateLimiter_counts_every_call_witness:
  "counter (world_with_counter ''1.2.3.4'' 10 60) ''1.2.3.4''
      = Some \<lparr>val = JSONText (JInt 10), expires_at = Some 60\<rparr>
   \<and> fst (call redis (cmd_incr (''rate:'' @ ''1.2.3.4'')) (world_with_counter ''1.2.3.4'' 10 60)) = Inr 11
   \<and> map_option val (rate_entry (snd (rateLimiter ''1.2.3.4'' (world_with_counter ''1.2.3.4'' 10 60))) ''1.2.3.4'')
      = Some (JSONText (JInt 11))
   \<and> fst (rateLimiter ''1.2.3.4'' (world_with_counter ''1.2.3.4'' 10 60)) = Inr too_many_requests
   \<and> map_option val (rate_entry (snd (serve (rateLimiter ''1.2.3.4'')
         (0 # [0, 0, 0, 0, 0, 0, 0, 0, 0, 0, 0]) world0)) ''1.2.3.4'')
      = Some (JSONText (JInt 12))
   \<and> Inr Next \<notin> set (fst (serve (rateLimiter ''1.2.3.4'') [1, 59]
         (snd (rateLimiter ''1.2.3.4'' (world_with_counter ''1.2.3.4'' 10 60)))))"
proof -
  let ?ip = "''1.2.3.4''"
  let ?w = "world_with_counter ?ip 10 60"
  let ?e = "\<lparr>val = JSONText (JInt 10), expires_at = Some 60\<rparr>"
  let ?e' = "\<lparr>val = JSONText (JInt 11), expires_at = Some 60\<rparr>"
  have h1: "counter ?w ?ip = Some ?e"
    by (simp add: rl_defs world_defs)
  have h2: "val ?e = JSONText (JInt 10)" by simp
  have h3: "fst (call redis (cmd_incr (''rate:'' @ ?ip)) ?w) = Inr 11"
    by (simp add: rl_defs world_defs)
  have h4: "rateLimiter ?ip ?w
      = (Inr (Responded 429 (JObject [(''error'', JString ''Too many requests'')])),
         snd (rateLimiter ?ip ?w))"
    by (simp add: rl_defs world_defs)
  have h5: "faults (stores world0 (Local 6379)) = []
      \<and> lookup 0 (stores world0 (Local 6379)) (''rate:'' @ ?ip) = None
      \<and> (\<forall>t\<in>set [0, 0, 0, 0, 0, 0, 0, 0, 0, 0, 0 :: nat]. 0 \<le> t \<and> t < 0 + 60)"
    by (simp add: rl_defs world_defs)
  have e': "rate_entry (snd (rateLimiter ?ip ?w)) ?ip = Some ?e'"
    by (simp add: rl_defs world_defs)
  note a = rateLimiter_counts_every_call
    [of ?w ?ip ?e 10 11 0 "[]" 429 "JObject [(''error'', JString ''Too many requests'')]"
      "snd (rateLimiter ?ip ?w)"]
  note b = rateLimiter_counts_every_call
    [of world0 ?ip ?e 10 11 0 "[0, 0, 0, 0, 0, 0, 0, 0, 0, 0, 0]"]
  have p1: "map_option val (rate_entry (snd (rateLimiter ?ip ?w)) ?ip) = Some (JSONText (JInt 11))
      \<and> fst (rateLimiter ?ip ?w) = Inr too_many_requests"
    using a h1 h2 h3 by simp
  have p2: "map_option val (rate_entry (snd (serve (rateLimiter ?ip)
         (0 # [0, 0, 0, 0, 0, 0, 0, 0, 0, 0, 0]) world0)) ?ip) = Some (JSONText (JInt 12))"
    using b h5 by simp
  have "\<forall>ts'. (\<forall>t\<in>set ts'. live t ?e')
          \<longrightarrow> Inr Next \<notin> set (fst (serve (rateLimiter ?ip) ts' (snd (rateLimiter ?ip ?w))))"
    using a h4 e' by auto
  then have "(\<forall>t\<in>set [1, 59 :: nat]. live t ?e')
          \<longrightarrow> Inr Next \<notin> set (fst (serve (rateLimiter ?ip) [1, 59] (snd (rateLimiter ?ip ?w))))"
    by (rule spec)
  moreover have "\<forall>t\<in>set [1, 59 :: nat]. live t ?e'" by (simp add: live_def)
  ultimately have p3:
    "Inr Next \<notin> set (fst (serve (rateLimiter ?ip) [1, 59] (snd (rateLimiter ?ip ?w))))"
    by (rule mp)
  show ?thesis using h1 h3 p1 p2 p3 by simp
qed

text \<open>
  Claim C6. (1) A call whose increment returns 1 and that completes leaves the counter
  with the expiry \<open>now + 60\<close>. (2) A call whose increment returns another count
  found a live counter and leaves its expiry as it was. (3) Hence, in a window opened at
  \<open>t0\<close> on a reachable store, the expiry after any number of further calls of the
  window is still \<open>t0 + 60\<close>.
\<close>

theorem rateLimiter_expiry_once:
  "(fst (call redis (cmd_incr (''rate:'' @ ip)) w) = Inr 1 \<and> fst (rateLimiter ip w) = Inr r
     \<longrightarrow> map_option expires_at (rate_entry (snd (rateLimiter ip w)) ip) = Some (Some (clock w + 60)))
   \<and> (fst (call redis (cmd_incr (''rate:'' @ ip)) w) = Inr c \<and> c \<noteq> 1
     \<longrightarrow> counter w ip \<noteq> None
       \<and> map_option expires_at (rate_entry (snd (rateLimiter ip w)) ip)
           = map_option expires_at (counter w ip))
   \<and> (faults (stores w (Local 6379)) = []
      \<and> lookup t0 (stores w (Local 6379)) (''rate:'' @ ip) = None
      \<and> (\<forall>t\<in>set ts. t0 \<le> t \<and> t < t0 + 60)
     \<longrightarrow> map_option expires_at (rate_entry (snd (serve (rateLimiter ip) (t0 # ts) w)) ip)
           = Some (Some (t0 + 60)))"
proof (intro conjI impI)
  assume "fst (call redis (cmd_incr (''rate:'' @ ip)) w) = Inr 1 \<and> fst (rateLimiter ip w) = Inr r"
  then show "map_option expires_at (rate_entry (snd (rateLimiter ip w)) ip) = Some (Some (clock w + 60))"
    using rl_sets_expiry by blast
next
  assume a: "fst (call redis (cmd_incr (''rate:'' @ ip)) w) = Inr c \<and> c \<noteq> 1"
  then show "counter w ip \<noteq> None" using rl_keeps_expiry(1) by blast
  show "map_option expires_at (rate_entry (snd (rateLimiter ip w)) ip)
           = map_option expires_at (counter w ip)"
    using a rl_keeps_expiry(2) by blast
next
  assume a: "faults (stores w (Local 6379)) = []
      \<and> lookup t0 (stores w (Local 6379)) (''rate:'' @ ip) = None
      \<and> (\<forall>t\<in>set ts. t0 \<le> t \<and> t < t0 + 60)"
  then have ts: "\<forall>t\<in>set ts. t \<le> t0 + 60" by (simp add: less_imp_le)
  show "map_option expires_at (rate_entry (snd (serve (rateLimiter ip) (t0 # ts) w)) ip)
           = Some (Some (t0 + 60))"
    using serve_fresh_window(3) [of w t0 ip ts] a ts by simp
qed

theorem rateLimiter_expiry_once_witness:
  "fst (call redis (cmd_incr (''rate:'' @ ''1.2.3.4'')) (world0\<lparr>clock := 5\<rparr>)) = Inr 1
   \<and> fst (rateLimiter ''1.2.3.4'' (world0\<lparr>clock := 5\<rparr>)) = Inr Next
   \<and> map_option expires_at (rate_entry (snd (rateLimiter ''1.2.3.4'' (world0\<lparr>clock := 5\<rparr>))) ''1.2.3.4'')
       = Some (Some 65)
   \<and> fst (call redis (cmd_incr (''rate:'' @ ''1.2.3.4'')) ((world_with_counter ''1.2.3.4'' 3 65)\<lparr>clock := 20\<rparr>))
       = Inr 4
   \<and> map_option expires_at
        (rate_entry (snd (rateLimiter ''1.2.3.4'' ((world_with_counter ''1.2.3.4'' 3 65)\<lparr>clock := 20\<rparr>))) ''1.2.3.4'')
       = Some (Some 65)
   \<and> map_option expires_at (rate_entry (snd (serve (rateLimiter ''1.2.3.4'') (5 # [20, 64]) world0)) ''1.2.3.4'')
       = Some (Some 65)"
proof -
  let ?ip = "''1.2.3.4''"
  let ?w = "world0\<lparr>clock := 5\<rparr>"
  let ?v = "(world_with_counter ?ip 3 65)\<lparr>clock := 20\<rparr>"
  have h1: "fst (call redis (cmd_incr (''rate:'' @ ?ip)) ?w) = Inr 1"
    by (simp add: rl_defs world_defs)
  have h2: "fst (rateLimiter ?ip ?w) = Inr Next"
    by (simp add: rl_defs world_defs)
  have h3: "fst (call redis (cmd_incr (''rate:'' @ ?ip)) ?v) = Inr 4 \<and> (4::int) \<noteq> 1"
    by (simp add: rl_defs world_defs)
  have h4: "map_option expires_at (counter ?v ?ip) = Some (Some 65)"
    by (simp add: rl_defs world_defs)
  have h5: "faults (stores world0 (Local 6379)) = []
      \<and> lookup 5 (stores world0 (Local 6379)) (''rate:'' @ ?ip) = None
      \<and> (\<forall>t\<in>set [20, 64 :: nat]. 5 \<le> t \<and> t < 5 + 60)"
    by (simp add: rl_defs world_defs)
  have p1: "map_option expires_at (rate_entry (snd (rateLimiter ?ip ?w)) ?ip) = Some (Some 65)"
    using rateLimiter_expiry_once [of ?ip ?w Next 1 0 "[]"] h1 h2 by simp
  have p2: "map_option expires_at (rate_entry (snd (rateLimiter ?ip ?v)) ?ip) = Some (Some 65)"
    using rateLimiter_expiry_once [of ?ip ?v Next 4 0 "[]"] h3 h4 by simp
  have p3: "map_option expires_at (rate_entry (snd (serve (rateLimiter ?ip) (5 # [20, 64]) world0)) ?ip)
       = Some (Some 65)"
    using rateLimiter_expiry_once [of ?ip world0 Next 1 5 "[20, 64]"] h5 by simp
  show ?thesis using h1 h2 h3 p1 p2 p3 by simp
qed

text \<open>
  Claim C7, as amended. A rejection by the limiter is the status 429 with the body
  \<open>{error: "Too many requests"}\<close>: it has no field \<open>retryAfterSeconds\<close>.
\<close>

theorem rateLimiter_rejection_body:
  "rateLimiter ip w = (Inr (Responded st b), w')
   \<longrightarrow> st = 429 \<and> b = JObject [(''error'', JString ''Too many requests'')]
     \<and> body_field ''retryAfterSeconds'' (Responded st b) = None"
proof
  assume a: "rateLimiter ip w = (Inr (Responded st b), w')"
  have "Responded st b = too_many_requests" using rl_rejection(1) [OF a] .
  then show "st = 429 \<and> b = JObject [(''error'', JString ''Too many requests'')]
     \<and> body_field ''retryAfterSeconds'' (Responded st b) = None"
    by (simp add: too_many_requests_def)
qed

theorem rateLimiter_rejection_body_witness:
  "rateLimiter ''1.2.3.4'' (world_with_counter ''1.2.3.4'' 10 60)
     = (Inr (Responded 429 (JObject [(''error'', JString ''Too many requests'')])),
        snd (rateLimiter ''1.2.3.4'' (world_with_counter ''1.2.3.4'' 10 60)))
   \<and> body_field ''retryAfterSeconds''
        (Responded 429 (JObject [(''error'', JString ''Too many requests'')])) = None"
proof -
  let ?w = "world_with_counter ''1.2.3.4'' 10 60"
  have h: "rateLimiter ''1.2.3.4'' ?w
     = (Inr (Responded 429 (JObject [(''error'', JString ''Too many requests'')])),
        snd (rateLimiter ''1.2.3.4'' ?w))"
    by (simp add: rl_defs world_defs)
  show ?thesis
    using h rateLimiter_rejection_body [of "''1.2.3.4''" ?w 429
        "JObject [(''error'', JString ''Too many requests'')]" "snd (rateLimiter ''1.2.3.4'' ?w)"]
    by blast
qed

text \<open>
  Claim C7 as stated fails: of eleven calls at time 0 the eleventh is rejected, and its
  body has no \<open>retryAfterSeconds\<close>.
\<close>

theorem rateLimiter_no_retry_after_counterexample:
  "fst (serve (rateLimiter ''1.2.3.4'') [0, 0, 0, 0, 0, 0, 0, 0, 0, 0, 0] world0)
     = [Inr Next, Inr Next, Inr Next, Inr Next, Inr Next, Inr Next, Inr Next, Inr Next,
        Inr Next, Inr Next,
        Inr (Responded 429 (JObject [(''error'', JString ''Too many requests'')]))]
   \<and> body_field ''retryAfterSeconds''
        (Responded 429 (JObject [(''error'', JString ''Too many requests'')])) = None"
proof -
  have h1: "faults (stores world0 (Local 6379)) = []"
    by (simp add: world_defs)
  have h2: "lookup 0 (stores world0 (Local 6379)) (''rate:'' @ ''1.2.3.4'') = None"
    by (simp add: world_defs lookup_def)
  have h3: "\<forall>t\<in>set [0, 0, 0, 0, 0, 0, 0, 0, 0, 0 :: nat]. t \<le> 0 + 60" by simp
  have m: "map window_outcome [0..<Suc (length [0, 0, 0, 0, 0, 0, 0, 0, 0, 0 :: nat])]
        = [Inr Next, Inr Next, Inr Next, Inr Next, Inr Next, Inr Next, Inr Next, Inr Next,
        Inr Next, Inr Next,
        Inr (Responded 429 (JObject [(''error'', JString ''Too many requests'')]))]"
    by (simp add: window_outcome_def too_many_requests_def upt_rec)
  show ?thesis
    using serve_fresh_window(1) [OF h1 h2 h3] unfolding m by simp
qed

section \<open>The cache-aside handlers\<close>

subsection \<open>The commands and the runs of each handler\<close>

lemma cmd_get_result:
  assumes "cmd_get k now s = (r, s1)"
  shows "entries s1 = entries s"
    and "r = Inl StoreUnavailable \<or> r = Inr (map_option val (lookup now s k))"
  using assms
  by (auto simp add: cmd_get_def next_fault_def lookup_def split: list.splits bool.splits)

lemma cmd_get_reachable:
  "faults s = [] \<Longrightarrow> cmd_get k now s = (Inr (map_option val (lookup now s k)), s)"
  by (simp add: cmd_get_def next_fault_def)

lemma cmd_set_ex_result:
  assumes "cmd_set_ex k v ttl now s = (r, s1)" "0 < ttl"
  shows "(r = Inl StoreUnavailable \<and> entries s1 = entries s)
       \<or> (r = Inr () \<and> entries s1 = (entries s)(k \<mapsto> \<lparr>val = v, expires_at = Some (now + ttl)\<rparr>))"
  using assms
  by (auto simp add: cmd_set_ex_def next_fault_def split: list.splits bool.splits)

lemma cmd_set_ex_reachable:
  "faults s = [] \<Longrightarrow> 0 < ttl \<Longrightarrow> cmd_set_ex k v ttl now s
     = (Inr (), s\<lparr>entries := (entries s)(k \<mapsto> \<lparr>val = v, expires_at = Some (now + ttl)\<rparr>)\<rparr>)"
  by (simp add: cmd_set_ex_def next_fault_def)

lemma call_get:
  assumes "call c (cmd_get k) w = (r, w1)"
  shows "all_entries w1 = all_entries w" "fetches w1 = fetches w" "db w1 = db w"
    "clock w1 = clock w" "redis_port w1 = redis_port w"
proof -
  obtain r' s1 where g: "cmd_get k (clock w) (stores w (c w)) = (r', s1)"
    by (cases "cmd_get k (clock w) (stores w (c w))")
  have w1: "w1 = w\<lparr>stores := (stores w)(c w := s1)\<rparr>" using assms g by (simp add: call_def)
  show "all_entries w1 = all_entries w"
    using cmd_get_result(1) [OF g] by (auto simp add: w1 all_entries_def)
  show "fetches w1 = fetches w" "db w1 = db w" "clock w1 = clock w" "redis_port w1 = redis_port w"
    by (simp_all add: w1)
qed

lemma call_set_ex:
  assumes "call c (cmd_set_ex k v ttl) w = (r, w1)" "0 < ttl"
  shows "fetches w1 = fetches w" "db w1 = db w" "clock w1 = clock w"
    and "(r = Inl StoreUnavailable \<and> all_entries w1 = all_entries w)
       \<or> (r = Inr () \<and> all_entries w1
            = (all_entries w)(c w := (all_entries w (c w))(k \<mapsto> \<lparr>val = v, expires_at = Some (clock w + ttl)\<rparr>)))"
proof -
  obtain r' s1 where g: "cmd_set_ex k v ttl (clock w) (stores w (c w)) = (r', s1)"
    by (cases "cmd_set_ex k v ttl (clock w) (stores w (c w))")
  have w1: "w1 = w\<lparr>stores := (stores w)(c w := s1)\<rparr>" and r: "r = r'"
    using assms g by (simp_all add: call_def)
  show "fetches w1 = fetches w" "db w1 = db w" "clock w1 = clock w"
    by (simp_all add: w1)
  show "(r = Inl StoreUnavailable \<and> all_entries w1 = all_entries w)
       \<or> (r = Inr () \<and> all_entries w1
            = (all_entries w)(c w := (all_entries w (c w))(k \<mapsto> \<lparr>val = v, expires_at = Some (clock w + ttl)\<rparr>)))"
    using cmd_set_ex_result [OF g assms(2)] by (auto simp add: w1 r all_entries_def)
qed

lemma all_entries_fetches [simp]: "all_entries (w\<lparr>fetches := f\<rparr>) = all_entries w"
  by (simp add: all_entries_def fun_eq_iff)

lemma get_products_id_unfold:
  "get_products_id ident w =
     (case call redis (cmd_get (''product:'' @ ident)) w of
        (Inl e, w1) \<Rightarrow> (Inl e, w1)
      | (Inr cached, w1) \<Rightarrow>
          if truthy_text cached then
            (case JSON_parse cached of
               Inl e \<Rightarrow> (Inl e, w1)
             | Inr v \<Rightarrow> (Inr (Responded 200 v), w1))
          else
            (case db w1 ident of
               Inl e \<Rightarrow> (Inl e, w1\<lparr>fetches := fetches w1 @ [FindById ident]\<rparr>)
             | Inr product \<Rightarrow>
                 (case call redis (cmd_set_ex (''product:'' @ ident) (JSON_stringify product) 3600)
                         (w1\<lparr>fetches := fetches w1 @ [FindById ident]\<rparr>) of
                    (Inl e, w3) \<Rightarrow> (Inl e, w3)
                  | (Inr u, w3) \<Rightarrow> (Inr (Responded 200 product), w3))))"
  by (simp add: get_products_id_def Let_def bind_def return_def lift_def findById_def
      split: prod.splits sum.splits)

text \<open>The ways a run of the first products handler can go.\<close>

lemma get_products_id_cases:
  fixes ident w
  defines "k \<equiv> ''product:'' @ ident"
  defines "r \<equiv> fst (get_products_id ident w)"
  defines "w' \<equiv> snd (get_products_id ident w)"
  obtains
    (read_failed) e where "cached_at w k = Inl e" "r = Inl e"
      "all_entries w' = all_entries w" "fetches w' = fetches w"
  | (hit) c v where "cached_at w k = Inr c" "truthy_text c" "JSON_parse c = Inr v"
      "r = Inr (Responded 200 v)" "all_entries w' = all_entries w" "fetches w' = fetches w"
  | (undecodable) c e where "cached_at w k = Inr c" "truthy_text c" "JSON_parse c = Inl e"
      "r = Inl e" "all_entries w' = all_entries w" "fetches w' = fetches w"
  | (compute_failed) c e where "cached_at w k = Inr c" "\<not> truthy_text c" "db w ident = Inl e"
      "r = Inl e" "all_entries w' = all_entries w" "fetches w' = fetches w @ [FindById ident]"
  | (write_failed) c p where "cached_at w k = Inr c" "\<not> truthy_text c" "db w ident = Inr p"
      "fst (call redis (cmd_set_ex k (JSON_stringify p) 3600)
             (snd (findById ident (snd (call redis (cmd_get k) w))))) = Inl StoreUnavailable"
      "r = Inl StoreUnavailable" "all_entries w' = all_entries w"
      "fetches w' = fetches w @ [FindById ident]"
  | (populated) c p where "cached_at w k = Inr c" "\<not> truthy_text c" "db w ident = Inr p"
      "fst (call redis (cmd_set_ex k (JSON_stringify p) 3600)
             (snd (findById ident (snd (call redis (cmd_get k) w))))) = Inr ()"
      "r = Inr (Responded 200 p)"
      "all_entries w' = (all_entries w)(Local 6379 := (all_entries w (Local 6379))
          (k \<mapsto> \<lparr>val = JSON_stringify p, expires_at = Some (clock w + 3600)\<rparr>))"
      "fetches w' = fetches w @ [FindById ident]"
proof -
  obtain r1 w1 where g: "call redis (cmd_get k) w = (r1, w1)"
    by (cases "call redis (cmd_get k) w")
  note g1 = call_get [OF g]
  have ca: "cached_at w k = r1" using g by (simp add: cached_at_def)
  let ?w2 = "w1\<lparr>fetches := fetches w1 @ [FindById ident]\<rparr>"
  have w2: "snd (findById ident (snd (call redis (cmd_get k) w))) = ?w2"
    using g by (simp add: findById_def)
  show thesis
  proof (cases r1)
    case (Inl e)
    then show thesis
      using read_failed [of e] g g1 ca
      by (simp add: r_def w'_def k_def get_products_id_unfold)
  next
    case (Inr c)
    show thesis
    proof (cases "truthy_text c")
      case True
      show thesis
      proof (cases "JSON_parse c")
        case (Inl e)
        then show thesis
          using undecodable [of c e] True Inr g g1 ca
          by (simp add: r_def w'_def k_def get_products_id_unfold)
      next
        case (Inr v)
        then show thesis
          using hit [of c v] True \<open>r1 = Inr c\<close> g g1 ca
          by (simp add: r_def w'_def k_def get_products_id_unfold)
      qed
    next
      case False
      show thesis
      proof (cases "db w ident")
        case (Inl e)
        then show thesis
          using compute_failed [of c e] False Inr g g1 ca
          by (simp add: r_def w'_def k_def get_products_id_unfold)
      next
        case db: (Inr p)
        obtain r3 w3 where s: "call redis (cmd_set_ex k (JSON_stringify p) 3600) ?w2 = (r3, w3)"
          by (cases "call redis (cmd_set_ex k (JSON_stringify p) 3600) ?w2")
        note s1 = call_set_ex [OF s zero_less_numeral]
        have run: "get_products_id ident w
            = (case r3 of Inl e \<Rightarrow> (Inl e, w3) | Inr u \<Rightarrow> (Inr (Responded 200 p), w3))"
          using g Inr False db s g1(3)
          by (simp add: k_def get_products_id_unfold split: sum.splits)
        have f3: "fetches w3 = fetches w @ [FindById ident]" using s1(1) g1(2) by simp
        have "(r3 = Inl StoreUnavailable \<and> all_entries w3 = all_entries w)
            \<or> (r3 = Inr () \<and> all_entries w3 = (all_entries w)(Local 6379 :=
                 (all_entries w (Local 6379))
                 (k \<mapsto> \<lparr>val = JSON_stringify p, expires_at = Some (clock w + 3600)\<rparr>)))"
          using s1(4) g1(1,4) by (simp add: redis_def)
        then show thesis
        proof (elim disjE conjE)
          assume a: "r3 = Inl StoreUnavailable" "all_entries w3 = all_entries w"
          show thesis
            using write_failed [of c p] a run s f3 False Inr db ca w2
            by (simp add: r_def w'_def)
        next
          assume a: "r3 = Inr ()" "all_entries w3 = (all_entries w)(Local 6379 :=
                 (all_entries w (Local 6379))
                 (k \<mapsto> \<lparr>val = JSON_stringify p, expires_at = Some (clock w + 3600)\<rparr>))"
          show thesis
            using populated [of c p] a run s f3 False Inr db ca w2
            by (simp add: r_def w'_def)
        qed
      qed
    qed
  qed
qed

lemma router_get_id_unfold:
  "router_get_id ident w =
     (case call redis (cmd_get (''product:'' @ ident)) w of
        (Inl e, w1) \<Rightarrow> (Inr (Responded 500 (JObject [(''error'', JMessageOf e)])), w1)
      | (Inr cached, w1) \<Rightarrow>
          if truthy_text cached then
            (case JSON_parse cached of
               Inl e \<Rightarrow> (Inr (Responded 500 (JObject [(''error'', JMessageOf e)])), w1)
             | Inr v \<Rightarrow>
                 (Inr (Responded 200 (JObject [(''source'', JString ''cache''), (''data'', v)])), w1))
          else
            (case db w1 ident of
               Inl e \<Rightarrow> (Inr (Responded 500 (JObject [(''error'', JMessageOf e)])),
                         w1\<lparr>fetches := fetches w1 @ [FindById ident]\<rparr>)
             | Inr product \<Rightarrow>
                 if \<not> truthy product then
                   (Inr (Responded 404 (JObject [(''message'', JString ''Not found'')])),
                    w1\<lparr>fetches := fetches w1 @ [FindById ident]\<rparr>)
                 else
                   (case call redisr (cmd_set_ex (''product:'' @ ident) (JSON_stringify product) 3600)
                           (w1\<lparr>fetches := fetches w1 @ [FindById ident]\<rparr>) of
                      (Inl e, w3) \<Rightarrow> (Inr (Responded 500 (JObject [(''error'', JMessageOf e)])), w3)
                    | (Inr u, w3) \<Rightarrow>
                        (Inr (Responded 200 (JObject [(''source'', JString ''db''), (''data'', product)])),
                         w3))))"
  by (simp add: router_get_id_def Let_def try_catch_def bind_def return_def lift_def findById_def
      split: prod.splits sum.splits)

text \<open>The ways a run of the second products handler can go.\<close>

lemma router_get_id_cases:
  fixes ident w
  defines "k \<equiv> ''product:'' @ ident"
  defines "r \<equiv> fst (router_get_id ident w)"
  defines "w' \<equiv> snd (router_get_id ident w)"
  obtains
    (read_failed) e where "cached_at w k = Inl e"
      "r = Inr (Responded 500 (JObject [(''error'', JMessageOf e)]))"
      "all_entries w' = all_entries w" "fetches w' = fetches w"
  | (hit) c v where "cached_at w k = Inr c" "truthy_text c" "JSON_parse c = Inr v"
      "r = Inr (Responded 200 (JObject [(''source'', JString ''cache''), (''data'', v)]))"
      "all_entries w' = all_entries w" "fetches w' = fetches w"
  | (undecodable) c e where "cached_at w k = Inr c" "truthy_text c" "JSON_parse c = Inl e"
      "r = Inr (Responded 500 (JObject [(''error'', JMessageOf e)]))"
      "all_entries w' = all_entries w" "fetches w' = fetches w"
  | (compute_failed) c e where "cached_at w k = Inr c" "\<not> truthy_text c" "db w ident = Inl e"
      "r = Inr (Responded 500 (JObject [(''error'', JMessageOf e)]))"
      "all_entries w' = all_entries w" "fetches w' = fetches w @ [FindById ident]"
  | (not_found) c p where "cached_at w k = Inr c" "\<not> truthy_text c" "db w ident = Inr p"
      "\<not> truthy p" "r = Inr (Responded 404 (JObject [(''message'', JString ''Not found'')]))"
      "all_entries w' = all_entries w" "fetches w' = fetches w @ [FindById ident]"
  | (write_failed) c p where "cached_at w k = Inr c" "\<not> truthy_text c" "db w ident = Inr p"
      "truthy p"
      "fst (call redisr (cmd_set_ex k (JSON_stringify p) 3600)
             (snd (findById ident (snd (call redis (cmd_get k) w))))) = Inl StoreUnavailable"
      "r = Inr (Responded 500 (JObject [(''error'', JMessageOf StoreUnavailable)]))"
      "all_entries w' = all_entries w" "fetches w' = fetches w @ [FindById ident]"
  | (populated) c p where "cached_at w k = Inr c" "\<not> truthy_text c" "db w ident = Inr p"
      "truthy p"
      "fst (call redisr (cmd_set_ex k (JSON_stringify p) 3600)
             (snd (findById ident (snd (call redis (cmd_get k) w))))) = Inr ()"
      "r = Inr (Responded 200 (JObject [(''source'', JString ''db''), (''data'', p)]))"
      "all_entries w' = (all_entries w)(Local (redis_port w) := (all_entries w (Local (redis_port w)))
          (k \<mapsto> \<lparr>val = JSON_stringify p, expires_at = Some (clock w + 3600)\<rparr>))"
      "fetches w' = fetches w @ [FindById ident]"
proof -
  obtain r1 w1 where g: "call redis (cmd_get k) w = (r1, w1)"
    by (cases "call redis (cmd_get k) w")
  note g1 = call_get [OF g]
  have ca: "cached_at w k = r1" using g by (simp add: cached_at_def)
  let ?w2 = "w1\<lparr>fetches := fetches w1 @ [FindById ident]\<rparr>"
  have w2: "snd (findById ident (snd (call redis (cmd_get k) w))) = ?w2"
    using g by (simp add: findById_def)
  show thesis
  proof (cases r1)
    case (Inl e)
    then show thesis
      using read_failed [of e] g g1 ca
      by (simp add: r_def w'_def k_def router_get_id_unfold)
  next
    case (Inr c)
    show thesis
    proof (cases "truthy_text c")
      case True
      show thesis
      proof (cases "JSON_parse c")
        case (Inl e)
        then show thesis
          using undecodable [of c e] True Inr g g1 ca
          by (simp add: r_def w'_def k_def router_get_id_unfold)
      next
        case (Inr v)
        then show thesis
          using hit [of c v] True \<open>r1 = Inr c\<close> g g1 ca
          by (simp add: r_def w'_def k_def router_get_id_unfold)
      qed
    next
      case False
      show thesis
      proof (cases "db w ident")
        case (Inl e)
        then show thesis
          using compute_failed [of c e] False Inr g g1 ca
          by (simp add: r_def w'_def k_def router_get_id_unfold)
      next
        case db: (Inr p)
        show thesis
        proof (cases "truthy p")
          case nf: False
          then show thesis
            using not_found [of c p] False Inr db g g1 ca
            by (simp add: r_def w'_def k_def router_get_id_unfold)
        next
          case tp: True
          obtain r3 w3 where s: "call redisr (cmd_set_ex k (JSON_stringify p) 3600) ?w2 = (r3, w3)"
            by (cases "call redisr (cmd_set_ex k (JSON_stringify p) 3600) ?w2")
          note s1 = call_set_ex [OF s zero_less_numeral]
          have run: "router_get_id ident w
              = (case r3 of
                   Inl e \<Rightarrow> (Inr (Responded 500 (JObject [(''error'', JMessageOf e)])), w3)
                 | Inr u \<Rightarrow>
                     (Inr (Responded 200 (JObject [(''source'', JString ''db''), (''data'', p)])), w3))"
            using g Inr False db tp s g1(3)
            by (simp add: k_def router_get_id_unfold split: sum.splits)
          have f3: "fetches w3 = fetches w @ [FindById ident]" using s1(1) g1(2) by simp
          have "(r3 = Inl StoreUnavailable \<and> all_entries w3 = all_entries w)
              \<or> (r3 = Inr () \<and> all_entries w3 = (all_entries w)(Local (redis_port w) :=
                   (all_entries w (Local (redis_port w)))
                   (k \<mapsto> \<lparr>val = JSON_stringify p, expires_at = Some (clock w + 3600)\<rparr>)))"
            using s1(4) g1(1,4,5) by (simp add: redisr_def)
          then show thesis
          proof (elim disjE conjE)
            assume a: "r3 = Inl StoreUnavailable" "all_entries w3 = all_entries w"
            show thesis
              using write_failed [of c p] a run s f3 False Inr db tp ca w2
              by (simp add: r_def w'_def)
          next
            assume a: "r3 = Inr ()" "all_entries w3 = (all_entries w)(Local (redis_port w) :=
                   (all_entries w (Local (redis_port w)))
                   (k \<mapsto> \<lparr>val = JSON_stringify p, expires_at = Some (clock w + 3600)\<rparr>))"
            show thesis
              using populated [of c p] a run s f3 False Inr db tp ca w2
              by (simp add: r_def w'_def)
          qed
        qed
      qed
    qed
  qed
qed

lemma get_news_unfold:
  "get_news w =
     (case call redis (cmd_get ''news:all'') w of
        (Inl e, w1) \<Rightarrow>
          (Inr (Responded 500 (JObject [(''success'', JBool False), (''message'', JString ''Server error'')])), w1)
      | (Inr cachedNews, w1) \<Rightarrow>
          if truthy_text cachedNews then
            (Inr (Responded 200
               (JObject [(''success'', JBool True), (''source'', JString ''cache''),
                         (''data'', js_string cachedNews)])), w1)
          else
            (case call redis2 (cmd_set_ex ''news:all'' (JSON_stringify fake_news) 600)
                    (w1\<lparr>fetches := fetches w1 @ [FakeNews]\<rparr>) of
               (Inl e, w3) \<Rightarrow>
                 (Inr (Responded 500
                    (JObject [(''success'', JBool False), (''message'', JString ''Server error'')])), w3)
             | (Inr u, w3) \<Rightarrow>
                 (Inr (Responded 200
                    (JObject [(''success'', JBool True), (''source'', JString ''db''),
                              (''data'', fake_news)])), w3)))"
  by (simp add: get_news_def Let_def try_catch_def bind_def return_def getFakeNewsFromDb_def
      split: prod.splits sum.splits)

text \<open>The ways a run of the news handler can go.\<close>

lemma get_news_cases:
  fixes w
  defines "r \<equiv> fst (get_news w)"
  defines "w' \<equiv> snd (get_news w)"
  obtains
    (read_failed) e where "cached_at w ''news:all'' = Inl e"
      "r = Inr (Responded 500 (JObject [(''success'', JBool False), (''message'', JString ''Server error'')]))"
      "all_entries w' = all_entries w" "fetches w' = fetches w"
  | (hit) c where "cached_at w ''news:all'' = Inr c" "truthy_text c"
      "r = Inr (Responded 200 (JObject [(''success'', JBool True), (''source'', JString ''cache''),
                                         (''data'', js_string c)]))"
      "all_entries w' = all_entries w" "fetches w' = fetches w"
  | (write_failed) c where "cached_at w ''news:all'' = Inr c" "\<not> truthy_text c"
      "r = Inr (Responded 500 (JObject [(''success'', JBool False), (''message'', JString ''Server error'')]))"
      "all_entries w' = all_entries w" "fetches w' = fetches w @ [FakeNews]"
  | (populated) c where "cached_at w ''news:all'' = Inr c" "\<not> truthy_text c"
      "r = Inr (Responded 200 (JObject [(''success'', JBool True), (''source'', JString ''db''),
                                         (''data'', fake_news)]))"
      "all_entries w' = (all_entries w)(Upstash := (all_entries w Upstash)
          (''news:all'' \<mapsto> \<lparr>val = JSON_stringify fake_news, expires_at = Some (clock w + 600)\<rparr>))"
      "fetches w' = fetches w @ [FakeNews]"
proof -
  obtain r1 w1 where g: "call redis (cmd_get ''news:all'') w = (r1, w1)"
    by (cases "call redis (cmd_get ''news:all'') w")
  note g1 = call_get [OF g]
  have ca: "cached_at w ''news:all'' = r1" using g by (simp add: cached_at_def)
  let ?w2 = "w1\<lparr>fetches := fetches w1 @ [FakeNews]\<rparr>"
  show thesis
  proof (cases r1)
    case (Inl e)
    then show thesis
      using read_failed [of e] g g1 ca
      by (simp add: r_def w'_def get_news_unfold)
  next
    case (Inr c)
    show thesis
    proof (cases "truthy_text c")
      case True
      then show thesis
        using hit [of c] Inr g g1 ca
        by (simp add: r_def w'_def get_news_unfold)
    next
      case False
      obtain r3 w3 where s: "call redis2 (cmd_set_ex ''news:all'' (JSON_stringify fake_news) 600) ?w2 = (r3, w3)"
        by (cases "call redis2 (cmd_set_ex ''news:all'' (JSON_stringify fake_news) 600) ?w2")
      note s1 = call_set_ex [OF s zero_less_numeral]
      have run: "get_news w
          = (case r3 of
               Inl e \<Rightarrow> (Inr (Responded 500
                    (JObject [(''success'', JBool False), (''message'', JString ''Server error'')])), w3)
             | Inr u \<Rightarrow> (Inr (Responded 200
                    (JObject [(''success'', JBool True), (''source'', JString ''db''),
                              (''data'', fake_news)])), w3))"
        using g Inr False s by (simp add: get_news_unfold split: sum.splits)
      have f3: "fetches w3 = fetches w @ [FakeNews]" using s1(1) g1(2) by simp
      have "(r3 = Inl StoreUnavailable \<and> all_entries w3 = all_entries w)
          \<or> (r3 = Inr () \<and> all_entries w3 = (all_entries w)(Upstash := (all_entries w Upstash)
               (''news:all'' \<mapsto> \<lparr>val = JSON_stringify fake_news, expires_at = Some (clock w + 600)\<rparr>)))"
        using s1(4) g1(1,4) by (simp add: redis2_def)
      then show thesis
      proof (elim disjE conjE)
        assume a: "r3 = Inl StoreUnavailable" "all_entries w3 = all_entries w"
        show thesis
          using write_failed [of c] a run f3 False Inr ca by (simp add: r_def w'_def)
      next
        assume a: "r3 = Inr ()" "all_entries w3 = (all_entries w)(Upstash := (all_entries w Upstash)
               (''news:all'' \<mapsto> \<lparr>val = JSON_stringify fake_news, expires_at = Some (clock w + 600)\<rparr>))"
        show thesis
          using populated [of c] a run f3 False Inr ca by (simp add: r_def w'_def)
      qed
    qed
  qed
qed

text \<open>The news handler never writes to the server it reads from.\<close>

lemma get_news_leaves_local:
  "all_entries (snd (get_news w)) (Local p) = all_entries w (Local p)"
  by (cases w rule: get_news_cases) simp_all

lemmas handler_defs = get_products_id_unfold router_get_id_unfold get_news_unfold
  call_def redis_def redisr_def redis2_def cmd_get_def cmd_set_ex_def next_fault_def
  lookup_def live_def JSON_stringify_def

lemmas shop_defs = shop_def tea_def world0_def empty_store_def

lemmas eval_defs = handler_defs shop_defs cached_at_def findById_def

subsection \<open>Hits of the first products handler\<close>

lemma call_get_reachable:
  assumes "faults (stores w (Local 6379)) = []"
  shows "call redis (cmd_get k) w
          = (Inr (map_option val (lookup (clock w) (stores w (Local 6379)) k)), w)"
  using assms by (simp add: call_def redis_def cmd_get_reachable)

lemma get_products_id_hit:
  assumes "faults (stores w (Local 6379)) = []"
    and "lookup (clock w) (stores w (Local 6379)) (''product:'' @ ident) = Some e"
    and "val e = JSONText v"
  shows "get_products_id ident w = (Inr (Responded 200 v), w)"
  using assms by (simp add: get_products_id_unfold call_get_reachable)

lemma get_products_id_miss:
  assumes "faults (stores w (Local 6379)) = []"
    and "\<not> truthy_text (map_option val (lookup (clock w) (stores w (Local 6379)) (''product:'' @ ident)))"
    and "db w ident = Inr p"
  shows "fst (get_products_id ident w) = Inr (Responded 200 p)"
    and "faults (stores (snd (get_products_id ident w)) (Local 6379)) = []"
    and "entries (stores (snd (get_products_id ident w)) (Local 6379)) (''product:'' @ ident)
          = Some \<lparr>val = JSONText p, expires_at = Some (clock w + 3600)\<rparr>"
    and "fetches (snd (get_products_id ident w)) = fetches w @ [FindById ident]"
  using assms
  by (simp_all add: get_products_id_unfold call_def redis_def cmd_get_reachable
      cmd_set_ex_reachable JSON_stringify_def)

lemma serve_hits:
  assumes "faults (stores w (Local 6379)) = []"
    and "entries (stores w (Local 6379)) (''product:'' @ ident) = Some e"
    and "val e = JSONText v" and "\<forall>t\<in>set ts. live t e"
  shows "fst (serve (get_products_id ident) ts w) = replicate (length ts) (Inr (Responded 200 v))
       \<and> fetches (snd (serve (get_products_id ident) ts w)) = fetches w
       \<and> stores (snd (serve (get_products_id ident) ts w)) = stores w"
  using assms
proof (induction ts arbitrary: w)
  case Nil
  then show ?case by simp
next
  case (Cons t ts)
  let ?w = "w\<lparr>clock := t\<rparr>"
  have l: "lookup (clock ?w) (stores ?w (Local 6379)) (''product:'' @ ident) = Some e"
    using Cons.prems(2,4) by (simp add: lookup_def)
  have f: "faults (stores ?w (Local 6379)) = []" using Cons.prems(1) by simp
  have step: "get_products_id ident ?w = (Inr (Responded 200 v), ?w)"
    using get_products_id_hit [OF f l Cons.prems(3)] .
  have ih: "fst (serve (get_products_id ident) ts ?w) = replicate (length ts) (Inr (Responded 200 v))
       \<and> fetches (snd (serve (get_products_id ident) ts ?w)) = fetches ?w
       \<and> stores (snd (serve (get_products_id ident) ts ?w)) = stores ?w"
    using Cons.IH [of ?w] Cons.prems by simp
  have s: "serve (get_products_id ident) (t # ts) w
        = (Inr (Responded 200 v) # fst (serve (get_products_id ident) ts ?w),
           snd (serve (get_products_id ident) ts ?w))"
    using step by (simp split: prod.splits)
  show ?case unfolding s using ih by simp
qed

text \<open>A miss at \<open>t0\<close> on a reachable store, and the requests of the hour that follows.\<close>

lemma get_products_id_window:
  assumes "faults (stores w (Local 6379)) = []"
    and "\<not> truthy_text (map_option val (lookup t0 (stores w (Local 6379)) (''product:'' @ ident)))"
    and "db w ident = Inr p"
    and "\<forall>t\<in>set ts. t < t0 + 3600"
  shows "fst (serve (get_products_id ident) (t0 # ts) w)
           = replicate (Suc (length ts)) (Inr (Responded 200 p))"
    and "entries (stores (snd (serve (get_products_id ident) (t0 # ts) w)) (Local 6379))
            (''product:'' @ ident)
           = Some \<lparr>val = JSONText p, expires_at = Some (t0 + 3600)\<rparr>"
    and "fetches (snd (serve (get_products_id ident) (t0 # ts) w)) = fetches w @ [FindById ident]"
proof -
  let ?w = "w\<lparr>clock := t0\<rparr>"
  let ?h = "get_products_id ident"
  let ?e = "\<lparr>val = JSONText p, expires_at = Some (t0 + 3600)\<rparr>"
  obtain r w1 where step: "?h ?w = (r, w1)" by (cases "?h ?w")
  have f: "faults (stores ?w (Local 6379)) = []" using assms(1) by simp
  have m: "\<not> truthy_text (map_option val (lookup (clock ?w) (stores ?w (Local 6379)) (''product:'' @ ident)))"
    using assms(2) by simp
  have d: "db ?w ident = Inr p" using assms(3) by simp
  note first = get_products_id_miss [OF f m d]
  have r: "r = Inr (Responded 200 p)" using first(1) step by simp
  have f1: "faults (stores w1 (Local 6379)) = []" using first(2) step by simp
  have e1: "entries (stores w1 (Local 6379)) (''product:'' @ ident) = Some ?e"
    using first(3) step by simp
  have fe: "fetches w1 = fetches w @ [FindById ident]" using first(4) step by simp
  have l: "\<forall>t\<in>set ts. live t ?e" using assms(4) by (simp add: live_def less_imp_le)
  have v: "val ?e = JSONText p" by simp
  note rest = serve_hits [OF f1 e1 v l]
  have s: "serve ?h (t0 # ts) w = (r # fst (serve ?h ts w1), snd (serve ?h ts w1))"
    using step by (simp split: prod.splits)
  show "fst (serve ?h (t0 # ts) w) = replicate (Suc (length ts)) (Inr (Responded 200 p))"
    unfolding s using r rest by simp
  show "entries (stores (snd (serve ?h (t0 # ts) w)) (Local 6379)) (''product:'' @ ident) = Some ?e"
    unfolding s using e1 rest by simp
  show "fetches (snd (serve ?h (t0 # ts) w)) = fetches w @ [FindById ident]"
    unfolding s using fe rest by simp
qed

text \<open>
  Were the news stored by \<open>redis2\<close> found by \<open>redis.get\<close>, the handler would send
  the stored text as a string, not the news it parses to.
\<close>

lemma get_news_hit_sends_text:
  assumes "cached_at w ''news:all'' = Inr (Some (JSON_stringify fake_news))"
  shows "fst (get_news w)
    = Inr (Responded 200 (JObject [(''success'', JBool True), (''source'', JString ''cache''),
                                   (''data'', JTextOf fake_news)]))"
  using assms by (cases w rule: get_news_cases) (auto simp add: JSON_stringify_def)

text \<open>
  The second products handler serves the second request from the cache when
  \<open>redisr\<close> is on port 6379, and fetches again when it is on another port.
\<close>

lemma router_get_id_second_request:
  "fst (serve (router_get_id ''42'') [0, 1] (shop [] Map.empty))
     = [Inr (Responded 200 (JObject [(''source'', JString ''db''), (''data'', tea)])),
        Inr (Responded 200 (JObject [(''source'', JString ''cache''), (''data'', tea)]))]"
  "fst (serve (router_get_id ''42'') [0, 1] ((shop [] Map.empty)\<lparr>redis_port := 6380\<rparr>))
     = [Inr (Responded 200 (JObject [(''source'', JString ''db''), (''data'', tea)])),
        Inr (Responded 200 (JObject [(''source'', JString ''db''), (''data'', tea)]))]"
  by (simp_all add: eval_defs)

subsection \<open>Claims\<close>

text \<open>
  Claim C2 fails on the news handler. Two requests for \<open>/news\<close>, at times 0 and 1,
  with every store reachable and empty: the first stores the news on the server of
  \<open>redis2\<close>, with a time-to-live of 600 seconds, but the handler reads through
  \<open>redis\<close>, where nothing was stored; so the second request fetches the news again
  and answers with the source \<open>db\<close>.
\<close>

theorem get_news_second_request_misses:
  "fst (serve get_news [0, 1] world0)
      = [Inr (Responded 200 (JObject [(''success'', JBool True), (''source'', JString ''db''),
                                      (''data'', fake_news)])),
         Inr (Responded 200 (JObject [(''success'', JBool True), (''source'', JString ''db''),
                                      (''data'', fake_news)]))]
   \<and> fetches (snd (serve get_news [0, 1] world0)) = [FakeNews, FakeNews]
   \<and> entries (stores (snd (serve get_news [0] world0)) Upstash) ''news:all''
      = Some \<lparr>val = JSONText fake_news, expires_at = Some 600\<rparr>
   \<and> entries (stores (snd (serve get_news [0] world0)) (Local 6379)) ''news:all'' = None"
  by (simp add: eval_defs)

text \<open>
  Claim C3, as amended. A failure of the cache read is not taken for a miss. (1) When
  \<open>redis.get\<close> rejects, and (2) when the cached string is not empty and
  \<open>JSON.parse\<close> throws on it, \<open>Product.findById\<close> is not called: the second
  products handler answers 500 with the message of the error, and the first one rejects
  with the error. (3) The empty cached string alone is taken for a miss: both handlers
  go on to call \<open>Product.findById\<close>.
\<close>

theorem read_failure_is_an_error:
  "(cached_at w (''product:'' @ ident) = Inl e
     \<longrightarrow> fst (router_get_id ident w) = Inr (Responded 500 (JObject [(''error'', JMessageOf e)]))
       \<and> fetches (snd (router_get_id ident w)) = fetches w
       \<and> fst (get_products_id ident w) = Inl e
       \<and> fetches (snd (get_products_id ident w)) = fetches w)
   \<and> (cached_at w (''product:'' @ ident) = Inr (Some (Malformed s)) \<and> s \<noteq> []
     \<longrightarrow> fst (router_get_id ident w)
           = Inr (Responded 500 (JObject [(''error'', JMessageOf DecodeFailed)]))
       \<and> fetches (snd (router_get_id ident w)) = fetches w
       \<and> fst (get_products_id ident w) = Inl DecodeFailed
       \<and> fetches (snd (get_products_id ident w)) = fetches w)
   \<and> (cached_at w (''product:'' @ ident) = Inr (Some (Malformed []))
     \<longrightarrow> fetches (snd (router_get_id ident w)) = fetches w @ [FindById ident]
       \<and> fetches (snd (get_products_id ident w)) = fetches w @ [FindById ident])"
proof (intro conjI impI)
  assume a: "cached_at w (''product:'' @ ident) = Inl e"
  show "fst (router_get_id ident w) = Inr (Responded 500 (JObject [(''error'', JMessageOf e)]))"
    using a by (cases ident w rule: router_get_id_cases) simp_all
  show "fetches (snd (router_get_id ident w)) = fetches w"
    using a by (cases ident w rule: router_get_id_cases) simp_all
  show "fst (get_products_id ident w) = Inl e"
    using a by (cases ident w rule: get_products_id_cases) simp_all
  show "fetches (snd (get_products_id ident w)) = fetches w"
    using a by (cases ident w rule: get_products_id_cases) simp_all
next
  assume a: "cached_at w (''product:'' @ ident) = Inr (Some (Malformed s)) \<and> s \<noteq> []"
  show "fst (router_get_id ident w)
           = Inr (Responded 500 (JObject [(''error'', JMessageOf DecodeFailed)]))"
    using a by (cases ident w rule: router_get_id_cases) auto
  show "fetches (snd (router_get_id ident w)) = fetches w"
    using a by (cases ident w rule: router_get_id_cases) auto
  show "fst (get_products_id ident w) = Inl DecodeFailed"
    using a by (cases ident w rule: get_products_id_cases) auto
  show "fetches (snd (get_products_id ident w)) = fetches w"
    using a by (cases ident w rule: get_products_id_cases) auto
next
  assume a: "cached_at w (''product:'' @ ident) = Inr (Some (Malformed []))"
  show "fetches (snd (router_get_id ident w)) = fetches w @ [FindById ident]"
    using a by (cases ident w rule: router_get_id_cases) auto
  show "fetches (snd (get_products_id ident w)) = fetches w @ [FindById ident]"
    using a by (cases ident w rule: get_products_id_cases) auto
qed

theorem read_failure_is_an_error_witness:
  "cached_at (shop [True] Map.empty) (''product:'' @ ''42'') = Inl StoreUnavailable
   \<and> fst (router_get_id ''42'' (shop [True] Map.empty))
      = Inr (Responded 500 (JObject [(''error'', JMessageOf StoreUnavailable)]))
   \<and> fetches (snd (router_get_id ''42'' (shop [True] Map.empty))) = []
   \<and> fst (get_products_id ''42'' (shop [True] Map.empty)) = Inl StoreUnavailable
   \<and> fetches (snd (get_products_id ''42'' (shop [True] Map.empty))) = []
   \<and> cached_at (shop [] [''product:42'' \<mapsto> \<lparr>val = Malformed ''{oops'', expires_at = None\<rparr>])
        (''product:'' @ ''42'') = Inr (Some (Malformed ''{oops''))
   \<and> fst (router_get_id ''42'' (shop [] [''product:42'' \<mapsto> \<lparr>val = Malformed ''{oops'', expires_at = None\<rparr>]))
      = Inr (Responded 500 (JObject [(''error'', JMessageOf DecodeFailed)]))
   \<and> fetches (snd (get_products_id ''42''
         (shop [] [''product:42'' \<mapsto> \<lparr>val = Malformed ''{oops'', expires_at = None\<rparr>]))) = []
   \<and> cached_at (shop [] [''product:42'' \<mapsto> \<lparr>val = Malformed [], expires_at = None\<rparr>])
        (''product:'' @ ''42'') = Inr (Some (Malformed []))
   \<and> fetches (snd (router_get_id ''42''
         (shop [] [''product:42'' \<mapsto> \<lparr>val = Malformed [], expires_at = None\<rparr>]))) = [FindById ''42'']
   \<and> fetches (snd (get_products_id ''42''
         (shop [] [''product:42'' \<mapsto> \<lparr>val = Malformed [], expires_at = None\<rparr>]))) = [FindById ''42'']"
proof -
  let ?w = "shop [True] Map.empty"
  let ?v = "shop [] [''product:42'' \<mapsto> \<lparr>val = Malformed ''{oops'', expires_at = None\<rparr>]"
  let ?u = "shop [] [''product:42'' \<mapsto> \<lparr>val = Malformed [], expires_at = None\<rparr>]"
  have h1: "cached_at ?w (''product:'' @ ''42'') = Inl StoreUnavailable"
    by (simp add: cached_at_def call_def redis_def cmd_get_def next_fault_def lookup_def shop_defs)
  have h2: "cached_at ?v (''product:'' @ ''42'') = Inr (Some (Malformed ''{oops''))"
    by (simp add: cached_at_def call_def redis_def cmd_get_def next_fault_def lookup_def live_def
        shop_defs)
  have h3: "cached_at ?u (''product:'' @ ''42'') = Inr (Some (Malformed []))"
    by (simp add: cached_at_def call_def redis_def cmd_get_def next_fault_def lookup_def live_def
        shop_defs)
  have f: "fetches ?w = []" "fetches ?v = []" "fetches ?u = []" by (simp_all add: shop_defs)
  note a = read_failure_is_an_error [of ?w "''42''" StoreUnavailable "''{oops''"]
  note b = read_failure_is_an_error [of ?v "''42''" StoreUnavailable "''{oops''"]
  note c = read_failure_is_an_error [of ?u "''42''" StoreUnavailable "''{oops''"]
  show ?thesis using a b c h1 h2 h3 f by simp
qed

text \<open>
  Claim C3 as stated fails: with the store unreachable, and with an undecodable string
  cached, the request for product 42 is answered 500 (the first handler rejects) and
  no fetch is made.
\<close>

theorem read_failure_not_a_miss_counterexample:
  "fst (router_get_id ''42'' (shop [True] Map.empty))
      = Inr (Responded 500 (JObject [(''error'', JMessageOf StoreUnavailable)]))
   \<and> fetches (snd (router_get_id ''42'' (shop [True] Map.empty))) = []
   \<and> fst (get_products_id ''42'' (shop [True] Map.empty)) = Inl StoreUnavailable
   \<and> fetches (snd (get_products_id ''42'' (shop [True] Map.empty))) = []
   \<and> fst (router_get_id ''42'' (shop [] [''product:42'' \<mapsto> \<lparr>val = Malformed ''{oops'', expires_at = None\<rparr>]))
      = Inr (Responded 500 (JObject [(''error'', JMessageOf DecodeFailed)]))
   \<and> fetches (snd (router_get_id ''42''
         (shop [] [''product:42'' \<mapsto> \<lparr>val = Malformed ''{oops'', expires_at = None\<rparr>]))) = []"
  by (simp add: eval_defs)

text \<open>
  Claim C4. When \<open>Product.findById\<close> fails, no entry of any server is changed by the
  request, whatever the cache held; and on a miss the caller gets the failure: status
  500 with the message of the error from the second products handler, the rejection
  itself from the first.
\<close>

theorem compute_failure_not_cached:
  "(db w ident = Inl e
     \<longrightarrow> (\<forall>sv k. entries (stores (snd (router_get_id ident w)) sv) k = entries (stores w sv) k)
       \<and> (\<forall>sv k. entries (stores (snd (get_products_id ident w)) sv) k = entries (stores w sv) k))
   \<and> (db w ident = Inl e \<and> cached_at w (''product:'' @ ident) = Inr c \<and> \<not> truthy_text c
     \<longrightarrow> fst (router_get_id ident w) = Inr (Responded 500 (JObject [(''error'', JMessageOf e)]))
       \<and> fetches (snd (router_get_id ident w)) = fetches w @ [FindById ident]
       \<and> fst (get_products_id ident w) = Inl e
       \<and> fetches (snd (get_products_id ident w)) = fetches w @ [FindById ident])"
proof (intro conjI impI)
  assume a: "db w ident = Inl e"
  have "all_entries (snd (router_get_id ident w)) = all_entries w"
    using a by (cases ident w rule: router_get_id_cases) simp_all
  then show "\<forall>sv k. entries (stores (snd (router_get_id ident w)) sv) k = entries (stores w sv) k"
    by (simp add: all_entries_def fun_eq_iff)
  have "all_entries (snd (get_products_id ident w)) = all_entries w"
    using a by (cases ident w rule: get_products_id_cases) simp_all
  then show "\<forall>sv k. entries (stores (snd (get_products_id ident w)) sv) k = entries (stores w sv) k"
    by (simp add: all_entries_def fun_eq_iff)
next
  assume a: "db w ident = Inl e \<and> cached_at w (''product:'' @ ident) = Inr c \<and> \<not> truthy_text c"
  show "fst (router_get_id ident w) = Inr (Responded 500 (JObject [(''error'', JMessageOf e)]))"
    using a by (cases ident w rule: router_get_id_cases) simp_all
  show "fetches (snd (router_get_id ident w)) = fetches w @ [FindById ident]"
    using a by (cases ident w rule: router_get_id_cases) simp_all
  show "fst (get_products_id ident w) = Inl e"
    using a by (cases ident w rule: get_products_id_cases) simp_all
  show "fetches (snd (get_products_id ident w)) = fetches w @ [FindById ident]"
    using a by (cases ident w rule: get_products_id_cases) simp_all
qed

theorem compute_failure_not_cached_witness:
  "db ((shop [] Map.empty)\<lparr>db := (\<lambda>i. Inl (ComputeFailed ''timeout''))\<rparr>) ''42''
      = Inl (ComputeFailed ''timeout'')
   \<and> cached_at ((shop [] Map.empty)\<lparr>db := (\<lambda>i. Inl (ComputeFailed ''timeout''))\<rparr>) (''product:'' @ ''42'')
      = Inr None
   \<and> fst (router_get_id ''42'' ((shop [] Map.empty)\<lparr>db := (\<lambda>i. Inl (ComputeFailed ''timeout''))\<rparr>))
      = Inr (Responded 500 (JObject [(''error'', JMessageOf (ComputeFailed ''timeout''))]))
   \<and> fetches (snd (router_get_id ''42'' ((shop [] Map.empty)\<lparr>db := (\<lambda>i. Inl (ComputeFailed ''timeout''))\<rparr>)))
      = [FindById ''42'']
   \<and> fst (get_products_id ''42'' ((shop [] Map.empty)\<lparr>db := (\<lambda>i. Inl (ComputeFailed ''timeout''))\<rparr>))
      = Inl (ComputeFailed ''timeout'')
   \<and> entries (stores (snd (router_get_id ''42''
          ((shop [] Map.empty)\<lparr>db := (\<lambda>i. Inl (ComputeFailed ''timeout''))\<rparr>))) (Local 6379)) ''product:42''
      = None"
proof -
  let ?w = "(shop [] Map.empty)\<lparr>db := (\<lambda>i. Inl (ComputeFailed ''timeout''))\<rparr>"
  have h1: "db ?w ''42'' = Inl (ComputeFailed ''timeout'')" by simp
  have h2: "cached_at ?w (''product:'' @ ''42'') = Inr None"
    by (simp add: cached_at_def call_def redis_def cmd_get_def next_fault_def lookup_def shop_defs)
  have h3: "\<not> truthy_text None" by simp
  have e: "entries (stores ?w (Local 6379)) ''product:42'' = None" by (simp add: shop_defs)
  have f: "fetches ?w = []" by (simp add: shop_defs)
  note t = compute_failure_not_cached [of ?w "''42''" "ComputeFailed ''timeout''" None]
  have "entries (stores (snd (router_get_id ''42'' ?w)) (Local 6379)) ''product:42''
      = entries (stores ?w (Local 6379)) ''product:42''"
    using t h1 by blast
  then show ?thesis using t h1 h2 h3 e f by simp
qed

text \<open>
  Claim C5, as amended. When the document was fetched and the write that populates the
  cache is rejected, the request fails: the second products handler answers 500 with
  the message of the store's error, the first rejects with it, and the document is not
  sent. Nothing is cached.
\<close>

theorem write_failure_is_an_error:
  "(cached_at w (''product:'' @ ident) = Inr c \<and> \<not> truthy_text c
      \<and> db w ident = Inr p \<and> truthy p
      \<and> fst (call redisr (cmd_set_ex (''product:'' @ ident) (JSON_stringify p) 3600)
               (snd (findById ident (snd (call redis (cmd_get (''product:'' @ ident)) w))))) = Inl e
     \<longrightarrow> fst (router_get_id ident w) = Inr (Responded 500 (JObject [(''error'', JMessageOf e)]))
       \<and> (\<forall>sv k. entries (stores (snd (router_get_id ident w)) sv) k = entries (stores w sv) k))
   \<and> (cached_at w (''product:'' @ ident) = Inr c \<and> \<not> truthy_text c
      \<and> db w ident = Inr p
      \<and> fst (call redis (cmd_set_ex (''product:'' @ ident) (JSON_stringify p) 3600)
               (snd (findById ident (snd (call redis (cmd_get (''product:'' @ ident)) w))))) = Inl e
     \<longrightarrow> fst (get_products_id ident w) = Inl e
       \<and> (\<forall>sv k. entries (stores (snd (get_products_id ident w)) sv) k = entries (stores w sv) k))"
proof (intro conjI impI)
  assume a: "cached_at w (''product:'' @ ident) = Inr c \<and> \<not> truthy_text c
      \<and> db w ident = Inr p \<and> truthy p
      \<and> fst (call redisr (cmd_set_ex (''product:'' @ ident) (JSON_stringify p) 3600)
               (snd (findById ident (snd (call redis (cmd_get (''product:'' @ ident)) w))))) = Inl e"
  show "fst (router_get_id ident w) = Inr (Responded 500 (JObject [(''error'', JMessageOf e)]))"
    using a by (cases ident w rule: router_get_id_cases) auto
  have "all_entries (snd (router_get_id ident w)) = all_entries w"
    using a by (cases ident w rule: router_get_id_cases) auto
  then show "\<forall>sv k. entries (stores (snd (router_get_id ident w)) sv) k = entries (stores w sv) k"
    by (simp add: all_entries_def fun_eq_iff)
next
  assume a: "cached_at w (''product:'' @ ident) = Inr c \<and> \<not> truthy_text c
      \<and> db w ident = Inr p
      \<and> fst (call redis (cmd_set_ex (''product:'' @ ident) (JSON_stringify p) 3600)
               (snd (findById ident (snd (call redis (cmd_get (''product:'' @ ident)) w))))) = Inl e"
  show "fst (get_products_id ident w) = Inl e"
    using a by (cases ident w rule: get_products_id_cases) auto
  have "all_entries (snd (get_products_id ident w)) = all_entries w"
    using a by (cases ident w rule: get_products_id_cases) auto
  then show "\<forall>sv k. entries (stores (snd (get_products_id ident w)) sv) k = entries (stores w sv) k"
    by (simp add: all_entries_def fun_eq_iff)
qed

theorem write_failure_is_an_error_witness:
  "cached_at (shop [False, True] Map.empty) (''product:'' @ ''42'') = Inr None
   \<and> db (shop [False, True] Map.empty) ''42'' = Inr tea
   \<and> truthy tea
   \<and> fst (call redisr (cmd_set_ex (''product:'' @ ''42'') (JSON_stringify tea) 3600)
            (snd (findById ''42'' (snd (call redis (cmd_get (''product:'' @ ''42''))
               (shop [False, True] Map.empty)))))) = Inl StoreUnavailable
   \<and> fst (router_get_id ''42'' (shop [False, True] Map.empty))
      = Inr (Responded 500 (JObject [(''error'', JMessageOf StoreUnavailable)]))
   \<and> entries (stores (snd (router_get_id ''42'' (shop [False, True] Map.empty))) (Local 6379)) ''product:42''
      = None
   \<and> fst (get_products_id ''42'' (shop [False, True] Map.empty)) = Inl StoreUnavailable"
proof -
  let ?w = "shop [False, True] Map.empty"
  have h1: "cached_at ?w (''product:'' @ ''42'') = Inr None"
    by (simp add: cached_at_def call_def redis_def cmd_get_def next_fault_def lookup_def shop_defs)
  have h2: "db ?w ''42'' = Inr tea" by (simp add: shop_defs)
  have h3: "truthy tea" "\<not> truthy_text None" by (simp_all add: tea_def)
  have h4: "fst (call redisr (cmd_set_ex (''product:'' @ ''42'') (JSON_stringify tea) 3600)
            (snd (findById ''42'' (snd (call redis (cmd_get (''product:'' @ ''42'')) ?w)))))
        = Inl StoreUnavailable"
    by (simp add: call_def redis_def redisr_def cmd_get_def cmd_set_ex_def next_fault_def
        findById_def shop_def world0_def empty_store_def)
  have h5: "fst (call redis (cmd_set_ex (''product:'' @ ''42'') (JSON_stringify tea) 3600)
            (snd (findById ''42'' (snd (call redis (cmd_get (''product:'' @ ''42'')) ?w)))))
        = Inl StoreUnavailable"
    by (simp add: call_def redis_def cmd_get_def cmd_set_ex_def next_fault_def
        findById_def shop_def world0_def empty_store_def)
  have e: "entries (stores ?w (Local 6379)) ''product:42'' = None" by (simp add: shop_defs)
  note t = write_failure_is_an_error [of ?w "''42''" None tea StoreUnavailable]
  have "entries (stores (snd (router_get_id ''42'' ?w)) (Local 6379)) ''product:42''
      = entries (stores ?w (Local 6379)) ''product:42''"
    using t h1 h2 h3 h4 by blast
  then show ?thesis using t h1 h2 h3 h4 h5 e by simp
qed

text \<open>
  Claim C5 as stated fails: the read succeeds, the document 42 is fetched, the write is
  rejected, and the answer is 500, not the document.
\<close>

theorem write_failure_fails_request_counterexample:
  "fst (router_get_id ''42'' (shop [False, True] Map.empty))
      = Inr (Responded 500 (JObject [(''error'', JMessageOf StoreUnavailable)]))
   \<and> fetches (snd (router_get_id ''42'' (shop [False, True] Map.empty))) = [FindById ''42'']
   \<and> db (shop [False, True] Map.empty) ''42'' = Inr tea
   \<and> fst (get_products_id ''42'' (shop [False, True] Map.empty)) = Inl StoreUnavailable"
  by (simp add: eval_defs)

lemma set_user_123_writes:
  "all_entries (snd (set_user_123 w)) = all_entries w
   \<or> (\<exists>v. all_entries (snd (set_user_123 w)) = (all_entries w)(Local 6379 := (all_entries w (Local 6379))
          (''user:123'' \<mapsto> \<lparr>val = v, expires_at = Some (clock w + 3600)\<rparr>)))"
proof -
  obtain r1 w1 where s: "set_user_123 w = (r1, w1)" by (cases "set_user_123 w")
  show ?thesis
    using call_set_ex(4) [OF s [unfolded set_user_123_def] zero_less_numeral] s
    by (auto simp add: redis_def)
qed

lemma set_key_writes:
  "all_entries (snd (set_key w)) = all_entries w
   \<or> (\<exists>v. all_entries (snd (set_key w)) = (all_entries w)(Local 6379 := (all_entries w (Local 6379))
          (''key'' \<mapsto> \<lparr>val = v, expires_at = Some (clock w + 60)\<rparr>)))"
proof -
  obtain r1 w1 where s: "set_key w = (r1, w1)" by (cases "set_key w")
  show ?thesis
    using call_set_ex(4) [OF s [unfolded set_key_def] zero_less_numeral] s
    by (auto simp add: redis_def)
qed

lemma written_entry:
  assumes "E' = E \<or> (\<exists>v. E' = E(sv0 := (E sv0)(k0 \<mapsto> \<lparr>val = v, expires_at = Some x\<rparr>)))"
    and "E' sv k \<noteq> E sv k"
  shows "\<exists>v. E' sv k = Some \<lparr>val = v, expires_at = Some x\<rparr>"
  using assms by (auto split: if_splits)

text \<open>
  Claim C8. Whatever a handler changes in a store, it leaves there with an expiry: the
  time of the request plus 3600 seconds for the two products handlers, plus 600
  seconds for the news handler; the two writes made outside the handlers carry 3600 and
  60 seconds.
\<close>

theorem cache_writes_carry_ttl:
  "(entries (stores (snd (get_products_id ident w)) sv) k \<noteq> entries (stores w sv) k
     \<longrightarrow> (\<exists>v. entries (stores (snd (get_products_id ident w)) sv) k
               = Some \<lparr>val = v, expires_at = Some (clock w + 3600)\<rparr>))
   \<and> (entries (stores (snd (router_get_id ident w)) sv) k \<noteq> entries (stores w sv) k
     \<longrightarrow> (\<exists>v. entries (stores (snd (router_get_id ident w)) sv) k
               = Some \<lparr>val = v, expires_at = Some (clock w + 3600)\<rparr>))
   \<and> (entries (stores (snd (get_news w)) sv) k \<noteq> entries (stores w sv) k
     \<longrightarrow> (\<exists>v. entries (stores (snd (get_news w)) sv) k
               = Some \<lparr>val = v, expires_at = Some (clock w + 600)\<rparr>))
   \<and> (entries (stores (snd (set_user_123 w)) sv) k \<noteq> entries (stores w sv) k
     \<longrightarrow> (\<exists>v. entries (stores (snd (set_user_123 w)) sv) k
               = Some \<lparr>val = v, expires_at = Some (clock w + 3600)\<rparr>))
   \<and> (entries (stores (snd (set_key w)) sv) k \<noteq> entries (stores w sv) k
     \<longrightarrow> (\<exists>v. entries (stores (snd (set_key w)) sv) k
               = Some \<lparr>val = v, expires_at = Some (clock w + 60)\<rparr>))"
proof -
  have p: "all_entries (snd (get_products_id ident w)) = all_entries w
      \<or> (\<exists>v. all_entries (snd (get_products_id ident w)) = (all_entries w)(Local 6379 :=
            (all_entries w (Local 6379))
            (''product:'' @ ident \<mapsto> \<lparr>val = v, expires_at = Some (clock w + 3600)\<rparr>)))"
    by (cases ident w rule: get_products_id_cases) auto
  have q: "all_entries (snd (router_get_id ident w)) = all_entries w
      \<or> (\<exists>v. all_entries (snd (router_get_id ident w)) = (all_entries w)(Local (redis_port w) :=
            (all_entries w (Local (redis_port w)))
            (''product:'' @ ident \<mapsto> \<lparr>val = v, expires_at = Some (clock w + 3600)\<rparr>)))"
    by (cases ident w rule: router_get_id_cases) auto
  have n: "all_entries (snd (get_news w)) = all_entries w
      \<or> (\<exists>v. all_entries (snd (get_news w)) = (all_entries w)(Upstash := (all_entries w Upstash)
            (''news:all'' \<mapsto> \<lparr>val = v, expires_at = Some (clock w + 600)\<rparr>)))"
    by (cases w rule: get_news_cases) auto
  show ?thesis
    using written_entry [OF p, of sv k] written_entry [OF q, of sv k] written_entry [OF n, of sv k]
      written_entry [OF set_user_123_writes, of w sv k] written_entry [OF set_key_writes, of w sv k]
    by (simp add: all_entries_def)
qed

theorem cache_writes_carry_ttl_witness:
  "entries (stores (shop [] Map.empty) (Local 6379)) ''product:42'' = None
   \<and> entries (stores (snd (get_products_id ''42'' (shop [] Map.empty))) (Local 6379)) ''product:42''
      = Some \<lparr>val = JSONText tea, expires_at = Some 3600\<rparr>
   \<and> entries (stores (snd (router_get_id ''42'' (shop [] Map.empty))) (Local 6379)) ''product:42''
      = Some \<lparr>val = JSONText tea, expires_at = Some 3600\<rparr>
   \<and> entries (stores (snd (get_news (shop [] Map.empty))) Upstash) ''news:all''
      = Some \<lparr>val = JSONText fake_news, expires_at = Some 600\<rparr>
   \<and> entries (stores (snd (set_user_123 (shop [] Map.empty))) (Local 6379)) ''user:123''
      = Some \<lparr>val = JSONText (JObject [(''name'', JString ''Mubarak''), (''role'', JString ''admin'')]),
               expires_at = Some 3600\<rparr>
   \<and> entries (stores (snd (set_key (shop [] Map.empty))) (Local 6379)) ''key''
      = Some \<lparr>val = Malformed ''value'', expires_at = Some 60\<rparr>"
proof -
  let ?w = "shop [] Map.empty"
  have c: "clock ?w = 0" by (simp add: shop_defs)
  have e: "entries (stores ?w sv) k = None" for sv k by (simp add: shop_defs)
  have h1: "entries (stores (snd (get_products_id ''42'' ?w)) (Local 6379)) ''product:42''
      = Some \<lparr>val = JSONText tea, expires_at = Some 3600\<rparr>"
    by (simp add: handler_defs shop_defs)
  have h2: "entries (stores (snd (router_get_id ''42'' ?w)) (Local 6379)) ''product:42''
      = Some \<lparr>val = JSONText tea, expires_at = Some 3600\<rparr>"
    by (simp add: handler_defs shop_defs)
  have h3: "entries (stores (snd (get_news ?w)) Upstash) ''news:all''
      = Some \<lparr>val = JSONText fake_news, expires_at = Some 600\<rparr>"
    by (simp add: handler_defs shop_defs)
  have h4: "entries (stores (snd (set_user_123 ?w)) (Local 6379)) ''user:123''
      = Some \<lparr>val = JSONText (JObject [(''name'', JString ''Mubarak''), (''role'', JString ''admin'')]),
               expires_at = Some 3600\<rparr>"
    by (simp add: set_user_123_def handler_defs shop_defs)
  have h5: "entries (stores (snd (set_key ?w)) (Local 6379)) ''key''
      = Some \<lparr>val = Malformed ''value'', expires_at = Some 60\<rparr>"
    by (simp add: set_key_def handler_defs shop_defs)
  have d1: "entries (stores (snd (get_products_id ''42'' ?w)) (Local 6379)) ''product:42''
      \<noteq> entries (stores ?w (Local 6379)) ''product:42''" using h1 e by simp
  have d2: "entries (stores (snd (router_get_id ''42'' ?w)) (Local 6379)) ''product:42''
      \<noteq> entries (stores ?w (Local 6379)) ''product:42''" using h2 e by simp
  have d3: "entries (stores (snd (get_news ?w)) Upstash) ''news:all''
      \<noteq> entries (stores ?w Upstash) ''news:all''" using h3 e by simp
  have d4: "entries (stores (snd (set_user_123 ?w)) (Local 6379)) ''user:123''
      \<noteq> entries (stores ?w (Local 6379)) ''user:123''" using h4 e by simp
  have d5: "entries (stores (snd (set_key ?w)) (Local 6379)) ''key''
      \<noteq> entries (stores ?w (Local 6379)) ''key''" using h5 e by simp
  have t1: "\<exists>v. entries (stores (snd (get_products_id ''42'' ?w)) (Local 6379)) ''product:42''
               = Some \<lparr>val = v, expires_at = Some (clock ?w + 3600)\<rparr>"
    using cache_writes_carry_ttl [of "''42''" ?w "Local 6379" "''product:42''"] d1 by blast
  have t2: "\<exists>v. entries (stores (snd (router_get_id ''42'' ?w)) (Local 6379)) ''product:42''
               = Some \<lparr>val = v, expires_at = Some (clock ?w + 3600)\<rparr>"
    using cache_writes_carry_ttl [of "''42''" ?w "Local 6379" "''product:42''"] d2 by blast
  have t3: "\<exists>v. entries (stores (snd (get_news ?w)) Upstash) ''news:all''
               = Some \<lparr>val = v, expires_at = Some (clock ?w + 600)\<rparr>"
    using cache_writes_carry_ttl [of "''42''" ?w Upstash "''news:all''"] d3 by blast
  have t4: "\<exists>v. entries (stores (snd (set_user_123 ?w)) (Local 6379)) ''user:123''
               = Some \<lparr>val = v, expires_at = Some (clock ?w + 3600)\<rparr>"
    using cache_writes_carry_ttl [of "''42''" ?w "Local 6379" "''user:123''"] d4 by blast
  have t5: "\<exists>v. entries (stores (snd (set_key ?w)) (Local 6379)) ''key''
               = Some \<lparr>val = v, expires_at = Some (clock ?w + 60)\<rparr>"
    using cache_writes_carry_ttl [of "''42''" ?w "Local 6379" "''key''"] d5 by blast
  show ?thesis using t1 t2 t3 t4 t5 e h1 h2 h3 h4 h5 by simp
qed

text \<open>
  Claim C9. (1) When the database has no document for the id (\<open>findById\<close> gives
  \<open>null\<close>) and the first products handler misses at \<open>t0\<close> on a reachable store,
  it answers \<open>null\<close>, stores the text of \<open>null\<close> under the product key with
  the expiry \<open>t0 + 3600\<close>, and every request of the following hour is answered
  \<open>null\<close> with no further fetch. (2) The second products handler answers 404
  \<open>{message: "Not found"}\<close> and changes no entry.
\<close>

theorem null_product_is_cached:
  "(faults (stores w (Local 6379)) = []
      \<and> \<not> truthy_text (map_option val (lookup t0 (stores w (Local 6379)) (''product:'' @ ident)))
      \<and> db w ident = Inr JNull
      \<and> (\<forall>t\<in>set ts. t0 \<le> t \<and> t < t0 + 3600)
     \<longrightarrow> fst (serve (get_products_id ident) (t0 # ts) w)
           = replicate (Suc (length ts)) (Inr (Responded 200 JNull))
       \<and> entries (stores (snd (serve (get_products_id ident) (t0 # ts) w)) (Local 6379))
            (''product:'' @ ident)
           = Some \<lparr>val = JSONText JNull, expires_at = Some (t0 + 3600)\<rparr>
       \<and> fetches (snd (serve (get_products_id ident) (t0 # ts) w)) = fetches w @ [FindById ident])
   \<and> (cached_at w (''product:'' @ ident) = Inr c \<and> \<not> truthy_text c \<and> db w ident = Inr JNull
     \<longrightarrow> fst (router_get_id ident w)
           = Inr (Responded 404 (JObject [(''message'', JString ''Not found'')]))
       \<and> (\<forall>sv k. entries (stores (snd (router_get_id ident w)) sv) k = entries (stores w sv) k))"
proof (intro conjI impI)
  assume a: "faults (stores w (Local 6379)) = []
      \<and> \<not> truthy_text (map_option val (lookup t0 (stores w (Local 6379)) (''product:'' @ ident)))
      \<and> db w ident = Inr JNull
      \<and> (\<forall>t\<in>set ts. t0 \<le> t \<and> t < t0 + 3600)"
  then have ts: "\<forall>t\<in>set ts. t < t0 + 3600" by simp
  note win = get_products_id_window [of w t0 ident JNull ts]
  show "fst (serve (get_products_id ident) (t0 # ts) w)
           = replicate (Suc (length ts)) (Inr (Responded 200 JNull))"
    using win(1) a ts by blast
  show "entries (stores (snd (serve (get_products_id ident) (t0 # ts) w)) (Local 6379))
            (''product:'' @ ident)
           = Some \<lparr>val = JSONText JNull, expires_at = Some (t0 + 3600)\<rparr>"
    using win(2) a ts by blast
  show "fetches (snd (serve (get_products_id ident) (t0 # ts) w)) = fetches w @ [FindById ident]"
    using win(3) a ts by blast
next
  assume a: "cached_at w (''product:'' @ ident) = Inr c \<and> \<not> truthy_text c \<and> db w ident = Inr JNull"
  show "fst (router_get_id ident w)
           = Inr (Responded 404 (JObject [(''message'', JString ''Not found'')]))"
    using a by (cases ident w rule: router_get_id_cases) auto
  have "all_entries (snd (router_get_id ident w)) = all_entries w"
    using a by (cases ident w rule: router_get_id_cases) auto
  then show "\<forall>sv k. entries (stores (snd (router_get_id ident w)) sv) k = entries (stores w sv) k"
    by (simp add: all_entries_def fun_eq_iff)
qed

theorem null_product_is_cached_witness:
  "faults (stores (shop [] Map.empty) (Local 6379)) = []
   \<and> \<not> truthy_text (map_option val (lookup 0 (stores (shop [] Map.empty) (Local 6379)) (''product:'' @ ''7'')))
   \<and> db (shop [] Map.empty) ''7'' = Inr JNull
   \<and> list_all (\<lambda>t. 0 \<le> t \<and> t < 0 + 3600) [1, 3599 :: nat]
   \<and> fst (serve (get_products_id ''7'') (0 # [1, 3599]) (shop [] Map.empty))
       = [Inr (Responded 200 JNull), Inr (Responded 200 JNull), Inr (Responded 200 JNull)]
   \<and> entries (stores (snd (serve (get_products_id ''7'') (0 # [1, 3599]) (shop [] Map.empty))) (Local 6379))
        (''product:'' @ ''7'')
       = Some \<lparr>val = JSONText JNull, expires_at = Some (0 + 3600)\<rparr>
   \<and> fetches (snd (serve (get_products_id ''7'') (0 # [1, 3599]) (shop [] Map.empty))) = [FindById ''7'']
   \<and> cached_at (shop [] Map.empty) (''product:'' @ ''7'') = Inr None
   \<and> fst (router_get_id ''7'' (shop [] Map.empty))
       = Inr (Responded 404 (JObject [(''message'', JString ''Not found'')]))
   \<and> entries (stores (snd (router_get_id ''7'' (shop [] Map.empty))) (Local 6379)) (''product:'' @ ''7'')
       = None"
proof -
  let ?w = "shop [] Map.empty"
  have h1: "faults (stores ?w (Local 6379)) = []" by (simp add: shop_defs)
  have h2: "\<not> truthy_text (map_option val (lookup 0 (stores ?w (Local 6379)) (''product:'' @ ''7'')))"
    by (simp add: shop_defs lookup_def)
  have h3: "db ?w ''7'' = Inr JNull" by (simp add: shop_defs)
  have h4: "\<forall>t\<in>set [1, 3599 :: nat]. 0 \<le> t \<and> t < 0 + 3600" by simp
  have h5: "cached_at ?w (''product:'' @ ''7'') = Inr None"
    by (simp add: cached_at_def call_def redis_def cmd_get_def next_fault_def lookup_def shop_defs)
  have h6: "\<not> truthy_text None" by simp
  have e: "entries (stores ?w (Local 6379)) (''product:'' @ ''7'') = None" by (simp add: shop_defs)
  have f: "fetches ?w = []" by (simp add: shop_defs)
  note t = null_product_is_cached [of ?w 0 "''7''" "[1, 3599]" None]
  show ?thesis using t h1 h2 h3 h4 h5 h6 e f by simp
qed

end
